theory Spec2Isabelle
  imports Main "HOL-Library.AList"
begin

section \<open>Data model of pkg/sync and pkg/s3client\<close>

text \<open>
  Go strings are byte sequences, modelled as \<^typ>\<open>string\<close>.  A \<open>time.Time\<close> without
  monotonic reading is modelled as the number of nanoseconds since the Unix epoch; a
  \<open>time.Duration\<close> is a number of nanoseconds.  \<open>Add\<close> and \<open>After\<close> are the two
  methods of \<open>time.Time\<close> the package uses.
\<close>

type_synonym Time = int
type_synonym Duration = int

definition Millisecond :: Duration where
  "Millisecond = 1000000"

definition Second :: Duration where
  "Second = 1000 * Millisecond"

definition Add :: "Time \<Rightarrow> Duration \<Rightarrow> Time" where
  "Add t d = t + d"

definition After :: "Time \<Rightarrow> Time \<Rightarrow> bool" where
  "After t u = (u < t)"

text \<open>The zero \<open>time.Time\<close> is January 1 of year 1, 00:00:00 UTC.\<close>

definition zeroTime :: Time where
  "zeroTime = - 62135596800 * Second"

text \<open>\<open>s3client.S3Object\<close> (sizes are \<open>int64\<close>; they are only compared for equality).\<close>

record S3Object =
  Key :: string
  Size :: int
  LastModified :: Time
  ETag :: string

text \<open>The zero value of \<open>S3Object\<close>, which a Go map lookup returns for a missing key.\<close>

definition zeroS3Object :: S3Object where
  "zeroS3Object = \<lparr>Key = [], Size = 0, LastModified = zeroTime, ETag = []\<rparr>"

text \<open>The part of \<open>os.FileInfo\<close> the package reads: \<open>Size()\<close>, \<open>ModTime()\<close>, \<open>IsDir()\<close>.\<close>

record FileInfo =
  fiSize :: int
  fiModTime :: Time
  fiIsDir :: bool

text \<open>An error of the \<open>os\<close> package: either one for which \<open>os.IsNotExist\<close> holds, or another.\<close>

datatype os_error = ErrNotExist | ErrOther

subsection \<open>The functions of package \<open>strings\<close> that are used\<close>

definition HasPrefix :: "string \<Rightarrow> string \<Rightarrow> bool" where
  "HasPrefix s pre = (length pre \<le> length s \<and> take (length pre) s = pre)"

definition HasSuffix :: "string \<Rightarrow> string \<Rightarrow> bool" where
  "HasSuffix s suf = (length suf \<le> length s \<and> drop (length s - length suf) s = suf)"

definition TrimSuffix :: "string \<Rightarrow> string \<Rightarrow> string" where
  "TrimSuffix s suf = (if HasSuffix s suf then take (length s - length suf) s else s)"

section \<open>The comparison of metadata\<close>

text \<open>\<open>needsUpload\<close> of push.go: the first argument (the local path) is ignored.\<close>

definition needsUpload :: "string \<Rightarrow> FileInfo \<Rightarrow> S3Object \<Rightarrow> bool \<times> string" where
  "needsUpload path localInfo remoteObj =
     (if Key remoteObj = [] then (True, ''new file'')
      else if fiSize localInfo \<noteq> Size remoteObj then (True, ''size differs'')
      else if After (fiModTime localInfo) (Add (LastModified remoteObj) (1 * 1000000000))
        then (True, ''local is newer'')
      else (False, []))"

text \<open>
  \<open>needsDownload\<close> of pull.go.  It calls \<open>os.Stat\<close> on the local path; the file system
  is the first argument: a function from a path to the error or the \<open>FileInfo\<close> that
  \<open>os.Stat\<close> returns for it.
\<close>

definition needsDownload ::
  "(string \<Rightarrow> os_error + FileInfo) \<Rightarrow> S3Object \<Rightarrow> string \<Rightarrow> bool \<times> string" where
  "needsDownload stat obj localPath =
     (case stat localPath of
        Inl err \<Rightarrow> (if err = ErrNotExist then (True, ''new file'') else (True, ''stat error''))
      | Inr info \<Rightarrow>
          if fiSize info \<noteq> Size obj then (True, ''size differs'')
          else if After (LastModified obj) (Add (fiModTime info) (1 * 1000000000))
            then (True, ''remote is newer'')
          else (False, []))"

section \<open>The exclusion check\<close>

text \<open>
  \<open>shouldExclude\<close> of push.go.  \<open>filepath.Match\<close> belongs to the Go standard library; it
  is the first argument here: a function from the pattern and the name to the pair
  \<open>(matched, err)\<close>, where \<open>err = None\<close> stands for \<open>nil\<close> and \<open>Some msg\<close> for
  \<open>ErrBadPattern\<close>.
\<close>

type_synonym matcher = "string \<Rightarrow> string \<Rightarrow> bool \<times> string option"

fun shouldExclude :: "matcher \<Rightarrow> string \<Rightarrow> string list \<Rightarrow> bool" where
  "shouldExclude Match path [] = False"
| "shouldExclude Match path (pattern # patterns) =
     (case Match pattern path of (matched, err) \<Rightarrow>
        if err = None \<and> matched then True
        else if HasSuffix pattern ''/*''
                \<and> HasPrefix path (TrimSuffix pattern ''/*'' @ ''/'') then True
        else if path = pattern then True
        else shouldExclude Match path patterns)"

section \<open>The collaborators of a run\<close>

text \<open>
  A Go \<open>error\<close> returned by a collaborator: \<open>None\<close> stands for \<open>nil\<close>, \<open>Some msg\<close>
  for an error with that message.
\<close>

type_synonym go_error = "string option"

text \<open>
  The mutating operations a run can invoke, each with its arguments and the error it
  returned: \<open>client.UploadFile(ctx, localPath, key)\<close>, \<open>client.DeleteObject(ctx, key)\<close>,
  \<open>client.DownloadFile(ctx, key, localPath)\<close>, \<open>os.Remove(path)\<close> and
  \<open>os.MkdirAll(path, 0755)\<close>.
\<close>

datatype call =
    UploadFile string string go_error
  | DeleteObject string go_error
  | DownloadFile string string go_error
  | Remove string go_error
  | MkdirAll string go_error

text \<open>
  One visit of \<open>filepath.Walk\<close>: the three arguments it passes to the callback.  When
  \<open>wErr\<close> is not \<open>None\<close> the callback does not look at \<open>wInfo\<close>.
\<close>

record walk_entry =
  wPath :: string
  wInfo :: FileInfo
  wErr :: "os_error option"

text \<open>
  The object store, the file system and the functions of the standard library that a run
  calls.  The operations whose answer can depend on what the run has done before take the
  calls made so far as their first argument, so that nothing is assumed about the effect
  of an upload, a download or a removal on later answers.
  \<^item> \<open>client_ListObjects prefix\<close> is \<open>client.ListObjects(ctx, prefix, true)\<close>;
  \<^item> \<open>filepath_Walk history root\<close> is the sequence of visits \<open>filepath.Walk(root, fn)\<close>
    makes, as long as \<open>fn\<close> returns \<open>nil\<close>;
  \<^item> \<open>filepath_Rel base target\<close> returns \<open>Inl\<close> for an error;
  \<^item> \<open>filepath_Match pattern name\<close> returns the pair \<open>(matched, err)\<close>.
\<close>

record world =
  client_ListObjects :: "string \<Rightarrow> string + S3Object list"
  client_UploadFile :: "call list \<Rightarrow> string \<Rightarrow> string \<Rightarrow> go_error"
  client_DeleteObject :: "call list \<Rightarrow> string \<Rightarrow> go_error"
  client_DownloadFile :: "call list \<Rightarrow> string \<Rightarrow> string \<Rightarrow> go_error"
  os_Stat :: "call list \<Rightarrow> string \<Rightarrow> os_error + FileInfo"
  os_Remove :: "call list \<Rightarrow> string \<Rightarrow> go_error"
  os_MkdirAll :: "call list \<Rightarrow> string \<Rightarrow> go_error"
  filepath_Walk :: "call list \<Rightarrow> string \<Rightarrow> walk_entry list"
  filepath_Join :: "string \<Rightarrow> string \<Rightarrow> string"
  filepath_Rel :: "string \<Rightarrow> string \<Rightarrow> string + string"
  filepath_ToSlash :: "string \<Rightarrow> string"
  filepath_Match :: matcher

text \<open>
  An error the callback of \<open>filepath.Walk\<close> returns: the error it was given, or the one
  of \<open>filepath.Rel\<close> (for which \<open>os.IsNotExist\<close> does not hold).
\<close>

datatype walk_error = OsError os_error | RelError string

text \<open>
  \<open>filepath.Walk\<close>: the callback is applied to the visits in turn; the first error it
  returns ends the walk and is the result.  (The callbacks of this package never return
  \<open>filepath.SkipDir\<close>.)
\<close>

fun Walk :: "walk_entry list \<Rightarrow> (walk_entry \<Rightarrow> 's \<Rightarrow> walk_error option \<times> 's) \<Rightarrow> 's
    \<Rightarrow> walk_error option \<times> 's" where
  "Walk [] fn s = (None, s)"
| "Walk (e # es) fn s =
     (case fn e s of
        (Some err, s') \<Rightarrow> (Some err, s')
      | (None, s') \<Rightarrow> Walk es fn s')"

text \<open>The error a run returns in place of its statistics.\<close>

datatype run_error =
    FailedToListRemoteObjects
  | FailedToStatPrefixPath
  | FailedToWalkDirectory
  | FailedToListObjects
  | FailedToCreateMountPath

section \<open>The state of a run\<close>

text \<open>
  Beside its statistics, a run is given here a record of what it decided and did: the
  paths for which it took the transfer branch (each with the reason it prints), those for
  which it took the skip branch, those it selected for deletion, and the mutating calls it
  made, all in the order of the run.  The Go code prints the first and the third and keeps
  none of them; they are what the properties below speak about.
\<close>

record 'stats run_state =
  stats :: 'stats
  toTransfer :: "(string \<times> string) list"
  toSkip :: "string list"
  toDelete :: "string list"
  calls :: "call list"

section \<open>Push\<close>

record PushOptions =
  Prefix :: string
  DryRun :: bool
  Delete :: bool
  ExcludeGlobs :: "string list"
  MountPath :: string

text \<open>
  The counters are Go \<open>int\<close>s (64 bits) that start at zero and are only incremented, by
  one for a visit or a key; they are natural numbers here.
\<close>

record PushStats =
  Uploaded :: nat
  Skipped :: nat
  Deleted :: nat
  Failed :: nat

text \<open>
  The state of \<open>Push\<close> has in addition the map \<open>localFiles\<close> of type
  \<open>map[string]bool\<close>, in which only \<open>true\<close> is ever stored: a lookup answers
  \<open>false\<close> for a missing key.
\<close>

record push_state = "PushStats run_state" +
  localFiles :: "string \<Rightarrow> bool"

definition push_init :: push_state where
  "push_init = \<lparr>stats = \<lparr>Uploaded = 0, Skipped = 0, Deleted = 0, Failed = 0\<rparr>,
     toTransfer = [], toSkip = [], toDelete = [], calls = [], localFiles = (\<lambda>key. False)\<rparr>"

text \<open>
  The map \<open>remoteFiles\<close> of type \<open>map[string]S3Object\<close> is an association list with
  one entry per key; storing under a key that is present replaces the value.  A lookup of
  a missing key answers the zero \<open>S3Object\<close>.  Go leaves the order in which \<open>range\<close>
  visits a map open; the association list is visited in the order in which the keys were
  first stored, and the properties of the deletions speak of the set of the selected keys.
\<close>

type_synonym remote_map = "(string \<times> S3Object) list"

definition index_remote :: "remote_map \<Rightarrow> string \<Rightarrow> S3Object" where
  "index_remote remoteFiles key =
     (case map_of remoteFiles key of None \<Rightarrow> zeroS3Object | Some obj \<Rightarrow> obj)"

fun push_remoteFiles :: "S3Object list \<Rightarrow> remote_map \<Rightarrow> remote_map" where
  "push_remoteFiles [] remoteFiles = remoteFiles"
| "push_remoteFiles (obj # remoteObjects) remoteFiles =
     push_remoteFiles remoteObjects
       (if \<not> HasSuffix (Key obj) ''/'' then AList.update (Key obj) obj remoteFiles
        else remoteFiles)"

text \<open>The callback \<open>Push\<close> gives to \<open>filepath.Walk\<close>.\<close>

definition push_walkFn ::
  "world \<Rightarrow> PushOptions \<Rightarrow> remote_map \<Rightarrow> walk_entry \<Rightarrow> push_state
    \<Rightarrow> walk_error option \<times> push_state" where
  "push_walkFn w opts remoteFiles e s =
     (case wErr e of
        Some err \<Rightarrow> (Some (OsError err), s)
      | None \<Rightarrow>
          if fiIsDir (wInfo e) then (None, s)
          else
            (case filepath_Rel w (MountPath opts) (wPath e) of
               Inl err \<Rightarrow> (Some (RelError err), s)
             | Inr relPath \<Rightarrow>
                 let s3Key = filepath_ToSlash w relPath in
                 if shouldExclude (filepath_Match w) s3Key (ExcludeGlobs opts) then (None, s)
                 else
                   let s1 = s\<lparr>localFiles := (localFiles s)(s3Key := True)\<rparr> in
                   (case needsUpload (wPath e) (wInfo e) (index_remote remoteFiles s3Key) of
                      (needs, reason) \<Rightarrow>
                        if needs then
                          let s2 = s1\<lparr>toTransfer := toTransfer s1 @ [(s3Key, reason)]\<rparr> in
                          if \<not> DryRun opts then
                            (case client_UploadFile w (calls s2) (wPath e) s3Key of
                               Some err \<Rightarrow>
                                 (None, s2\<lparr>calls := calls s2 @ [UploadFile (wPath e) s3Key (Some err)],
                                          stats := (stats s2)\<lparr>Failed := Failed (stats s2) + 1\<rparr>\<rparr>)
                             | None \<Rightarrow>
                                 (None, s2\<lparr>calls := calls s2 @ [UploadFile (wPath e) s3Key None],
                                          stats := (stats s2)\<lparr>Uploaded := Uploaded (stats s2) + 1\<rparr>\<rparr>))
                          else (None, s2)
                        else
                          let s2 = s1\<lparr>toSkip := toSkip s1 @ [s3Key]\<rparr> in
                          if \<not> DryRun opts then
                            (None, s2\<lparr>stats := (stats s2)\<lparr>Skipped := Skipped (stats s2) + 1\<rparr>\<rparr>)
                          else (None, s2))))"

text \<open>The loop \<open>for key := range remoteFiles\<close> of the deletions.\<close>

fun push_deleteLoop :: "world \<Rightarrow> PushOptions \<Rightarrow> string list \<Rightarrow> push_state \<Rightarrow> push_state" where
  "push_deleteLoop w opts [] s = s"
| "push_deleteLoop w opts (key # keys) s =
     push_deleteLoop w opts keys
       (if \<not> localFiles s key then
          let s1 = s\<lparr>toDelete := toDelete s @ [key]\<rparr> in
          if \<not> DryRun opts then
            (case client_DeleteObject w (calls s1) key of
               Some err \<Rightarrow>
                 s1\<lparr>calls := calls s1 @ [DeleteObject key (Some err)],
                    stats := (stats s1)\<lparr>Failed := Failed (stats s1) + 1\<rparr>\<rparr>
             | None \<Rightarrow>
                 s1\<lparr>calls := calls s1 @ [DeleteObject key None],
                    stats := (stats s1)\<lparr>Deleted := Deleted (stats s1) + 1\<rparr>\<rparr>)
          else s1
        else s)"

text \<open>The last part of \<open>Push\<close>: the deletions, when requested, and the return.\<close>

definition push_deletions ::
  "world \<Rightarrow> PushOptions \<Rightarrow> remote_map \<Rightarrow> push_state \<Rightarrow> (run_error + PushStats) \<times> push_state" where
  "push_deletions w opts remoteFiles s =
     (let s' = (if Delete opts then push_deleteLoop w opts (map fst remoteFiles) s else s)
      in (Inr (stats s'), s'))"

text \<open>
  \<open>Push\<close>.  The first component of the result is what the Go function returns (the error,
  or the statistics); the second is the state of the run when it returns.
\<close>

definition Push :: "world \<Rightarrow> PushOptions \<Rightarrow> (run_error + PushStats) \<times> push_state" where
  "Push w opts =
     (case client_ListObjects w (Prefix opts) of
        Inl err \<Rightarrow> (Inl FailedToListRemoteObjects, push_init)
      | Inr remoteObjects \<Rightarrow>
          let remoteFiles = push_remoteFiles remoteObjects [];
              prefixPath = filepath_Join w (MountPath opts) (Prefix opts)
          in (case os_Stat w [] prefixPath of
                Inl ErrNotExist \<Rightarrow>
                  if \<not> Delete opts then (Inr (stats push_init), push_init)
                  else push_deletions w opts remoteFiles push_init
              | Inl ErrOther \<Rightarrow> (Inl FailedToStatPrefixPath, push_init)
              | Inr info \<Rightarrow>
                  (case Walk (filepath_Walk w [] prefixPath) (push_walkFn w opts remoteFiles) push_init of
                     (Some err, s) \<Rightarrow> (Inl FailedToWalkDirectory, s)
                   | (None, s) \<Rightarrow> push_deletions w opts remoteFiles s)))"

section \<open>Pull\<close>

text \<open>
  The fields of \<open>PullOptions\<close> and \<open>PullStats\<close> that have the name of a field of
  \<open>PushOptions\<close> or \<open>PushStats\<close> are written with the prefix \<open>pull_\<close>.
\<close>

record PullOptions =
  pull_Prefix :: string
  pull_DryRun :: bool
  pull_Delete :: bool
  pull_MountPath :: string

record PullStats =
  Downloaded :: nat
  pull_Skipped :: nat
  pull_Deleted :: nat
  pull_Failed :: nat

type_synonym pull_state = "PullStats run_state"

definition pull_init :: pull_state where
  "pull_init = \<lparr>stats = \<lparr>Downloaded = 0, pull_Skipped = 0, pull_Deleted = 0, pull_Failed = 0\<rparr>,
     toTransfer = [], toSkip = [], toDelete = [], calls = []\<rparr>"

text \<open>The loop \<open>for _, obj := range objects\<close> of the downloads.\<close>

fun pull_downloadLoop :: "world \<Rightarrow> PullOptions \<Rightarrow> S3Object list \<Rightarrow> pull_state \<Rightarrow> pull_state" where
  "pull_downloadLoop w opts [] s = s"
| "pull_downloadLoop w opts (obj # objects) s =
     pull_downloadLoop w opts objects
       (if HasSuffix (Key obj) ''/'' then s
        else
          let localPath = filepath_Join w (pull_MountPath opts) (Key obj) in
          (case needsDownload (os_Stat w (calls s)) obj localPath of
             (needs, reason) \<Rightarrow>
               if needs then
                 let s1 = s\<lparr>toTransfer := toTransfer s @ [(Key obj, reason)]\<rparr> in
                 if \<not> pull_DryRun opts then
                   (case client_DownloadFile w (calls s1) (Key obj) localPath of
                      Some err \<Rightarrow>
                        s1\<lparr>calls := calls s1 @ [DownloadFile (Key obj) localPath (Some err)],
                           stats := (stats s1)\<lparr>pull_Failed := pull_Failed (stats s1) + 1\<rparr>\<rparr>
                    | None \<Rightarrow>
                        s1\<lparr>calls := calls s1 @ [DownloadFile (Key obj) localPath None],
                           stats := (stats s1)\<lparr>Downloaded := Downloaded (stats s1) + 1\<rparr>\<rparr>)
                 else s1
               else
                 let s1 = s\<lparr>toSkip := toSkip s @ [Key obj]\<rparr> in
                 if \<not> pull_DryRun opts then
                   s1\<lparr>stats := (stats s1)\<lparr>pull_Skipped := pull_Skipped (stats s1) + 1\<rparr>\<rparr>
                 else s1))"

text \<open>The map \<open>remoteKeys\<close> of type \<open>map[string]bool\<close>, built from the listing.\<close>

fun pull_remoteKeys :: "S3Object list \<Rightarrow> (string \<Rightarrow> bool) \<Rightarrow> (string \<Rightarrow> bool)" where
  "pull_remoteKeys [] remoteKeys = remoteKeys"
| "pull_remoteKeys (obj # objects) remoteKeys =
     pull_remoteKeys objects
       (if \<not> HasSuffix (Key obj) ''/'' then remoteKeys(Key obj := True) else remoteKeys)"

text \<open>The callback \<open>Pull\<close> gives to \<open>filepath.Walk\<close>.\<close>

definition pull_walkFn ::
  "world \<Rightarrow> PullOptions \<Rightarrow> (string \<Rightarrow> bool) \<Rightarrow> walk_entry \<Rightarrow> pull_state
    \<Rightarrow> walk_error option \<times> pull_state" where
  "pull_walkFn w opts remoteKeys e s =
     (case wErr e of
        Some err \<Rightarrow> (Some (OsError err), s)
      | None \<Rightarrow>
          if fiIsDir (wInfo e) then (None, s)
          else
            (case filepath_Rel w (pull_MountPath opts) (wPath e) of
               Inl err \<Rightarrow> (Some (RelError err), s)
             | Inr relPath0 \<Rightarrow>
                 let relPath = filepath_ToSlash w relPath0 in
                 if \<not> remoteKeys relPath then
                   let s1 = s\<lparr>toDelete := toDelete s @ [relPath]\<rparr> in
                   if \<not> pull_DryRun opts then
                     (case os_Remove w (calls s1) (wPath e) of
                        Some err \<Rightarrow>
                          (None, s1\<lparr>calls := calls s1 @ [Remove (wPath e) (Some err)],
                                   stats := (stats s1)\<lparr>pull_Failed := pull_Failed (stats s1) + 1\<rparr>\<rparr>)
                      | None \<Rightarrow>
                          (None, s1\<lparr>calls := calls s1 @ [Remove (wPath e) None],
                                   stats := (stats s1)\<lparr>pull_Deleted := pull_Deleted (stats s1) + 1\<rparr>\<rparr>))
                   else (None, s1)
                 else (None, s)))"

text \<open>The last part of \<open>Pull\<close>: the deletions, when requested, and the return.\<close>

definition pull_deletions ::
  "world \<Rightarrow> PullOptions \<Rightarrow> S3Object list \<Rightarrow> pull_state \<Rightarrow> (run_error + PullStats) \<times> pull_state" where
  "pull_deletions w opts objects s =
     (if pull_Delete opts then
        let remoteKeys = pull_remoteKeys objects (\<lambda>key. False);
            prefixPath = filepath_Join w (pull_MountPath opts) (pull_Prefix opts)
        in (case Walk (filepath_Walk w (calls s) prefixPath) (pull_walkFn w opts remoteKeys) s of
              (Some err, s') \<Rightarrow>
                if err \<noteq> OsError ErrNotExist then (Inl FailedToWalkDirectory, s')
                else (Inr (stats s'), s')
            | (None, s') \<Rightarrow> (Inr (stats s'), s'))
      else (Inr (stats s), s))"

text \<open>\<open>Pull\<close>, with the same two components as \<open>Push\<close>.\<close>

definition Pull :: "world \<Rightarrow> PullOptions \<Rightarrow> (run_error + PullStats) \<times> pull_state" where
  "Pull w opts =
     (case client_ListObjects w (pull_Prefix opts) of
        Inl err \<Rightarrow> (Inl FailedToListObjects, pull_init)
      | Inr objects \<Rightarrow>
          if \<not> pull_DryRun opts then
            (case os_MkdirAll w [] (pull_MountPath opts) of
               Some err \<Rightarrow>
                 (Inl FailedToCreateMountPath,
                  pull_init\<lparr>calls := [MkdirAll (pull_MountPath opts) (Some err)]\<rparr>)
             | None \<Rightarrow>
                 pull_deletions w opts objects
                   (pull_downloadLoop w opts objects
                      (pull_init\<lparr>calls := [MkdirAll (pull_MountPath opts) None]\<rparr>)))
          else pull_deletions w opts objects (pull_downloadLoop w opts objects pull_init))"

section \<open>Notions used to state the properties\<close>

text \<open>
  The key both callbacks compute for a visit:
  \<open>filepath.ToSlash\<close> of \<open>filepath.Rel(MountPath, path)\<close>.  (It is only used for
  visits on which \<open>filepath.Rel\<close> succeeds.)
\<close>

definition s3KeyOf :: "world \<Rightarrow> string \<Rightarrow> walk_entry \<Rightarrow> string" where
  "s3KeyOf w mountPath e =
     (case filepath_Rel w mountPath (wPath e) of
        Inl err \<Rightarrow> []
      | Inr relPath \<Rightarrow> filepath_ToSlash w relPath)"

text \<open>
  A visit on which the callbacks return no error: the walk reports none, and the visit is
  a directory or \<open>filepath.Rel\<close> succeeds on its path.
\<close>

definition visitOK :: "world \<Rightarrow> string \<Rightarrow> walk_entry \<Rightarrow> bool" where
  "visitOK w mountPath e =
     (wErr e = None \<and> (fiIsDir (wInfo e) \<or> \<not> isl (filepath_Rel w mountPath (wPath e))))"

text \<open>A visit \<open>Push\<close> considers: not a directory, and its key is not excluded.\<close>

definition considered :: "world \<Rightarrow> PushOptions \<Rightarrow> walk_entry \<Rightarrow> bool" where
  "considered w opts e =
     (\<not> fiIsDir (wInfo e)
      \<and> \<not> shouldExclude (filepath_Match w) (s3KeyOf w (MountPath opts) e) (ExcludeGlobs opts))"

text \<open>What \<open>needsUpload\<close> answers for a visit, given the map of the remote objects.\<close>

definition decision :: "world \<Rightarrow> PushOptions \<Rightarrow> remote_map \<Rightarrow> walk_entry \<Rightarrow> bool \<times> string" where
  "decision w opts remoteFiles e =
     needsUpload (wPath e) (wInfo e) (index_remote remoteFiles (s3KeyOf w (MountPath opts) e))"

text \<open>The keys of a listing that do not end in \<open>/\<close>, in the order of the listing.\<close>

definition nonDirKeys :: "S3Object list \<Rightarrow> string list" where
  "nonDirKeys objects = map Key (filter (\<lambda>obj. \<not> HasSuffix (Key obj) ''/'') objects)"

text \<open>
  The local root of a push, the visits its walk makes (none when \<open>os.Stat\<close> does not find
  the root) and the keys of the visits it considers: the source side of the run.
\<close>

definition push_prefixPath :: "world \<Rightarrow> PushOptions \<Rightarrow> string" where
  "push_prefixPath w opts = filepath_Join w (MountPath opts) (Prefix opts)"

definition push_visits :: "world \<Rightarrow> PushOptions \<Rightarrow> walk_entry list" where
  "push_visits w opts =
     (case os_Stat w [] (push_prefixPath w opts) of
        Inl err \<Rightarrow> []
      | Inr info \<Rightarrow> filepath_Walk w [] (push_prefixPath w opts))"

definition push_source :: "world \<Rightarrow> PushOptions \<Rightarrow> string list" where
  "push_source w opts =
     map (s3KeyOf w (MountPath opts)) (filter (considered w opts) (push_visits w opts))"

text \<open>
  The visits the walk of a push reaches: those before the first on which the callback
  returns an error, which ends the walk.  The keys of the considered ones among them are
  the files the run observes.
\<close>

definition push_visited :: "world \<Rightarrow> PushOptions \<Rightarrow> walk_entry list" where
  "push_visited w opts = takeWhile (visitOK w (MountPath opts)) (push_visits w opts)"

definition push_observed :: "world \<Rightarrow> PushOptions \<Rightarrow> string list" where
  "push_observed w opts =
     map (s3KeyOf w (MountPath opts)) (filter (considered w opts) (push_visited w opts))"

definition pull_prefixPath :: "world \<Rightarrow> PullOptions \<Rightarrow> string" where
  "pull_prefixPath w opts = filepath_Join w (pull_MountPath opts) (pull_Prefix opts)"

text \<open>
  The state in which the downloads of a pull start (after the call of \<open>os.MkdirAll\<close>
  when the run is live), and the visits the walk of its deletions makes: the walk takes
  place after the downloads.
\<close>

definition pull_start :: "PullOptions \<Rightarrow> pull_state" where
  "pull_start opts =
     (if \<not> pull_DryRun opts then pull_init\<lparr>calls := [MkdirAll (pull_MountPath opts) None]\<rparr>
      else pull_init)"

definition pull_visits :: "world \<Rightarrow> PullOptions \<Rightarrow> S3Object list \<Rightarrow> walk_entry list" where
  "pull_visits w opts objects =
     filepath_Walk w (calls (pull_downloadLoop w opts objects (pull_start opts)))
       (pull_prefixPath w opts)"

text \<open>Reading the record of the calls: the error of a call, the calls that failed.\<close>

fun call_error :: "call \<Rightarrow> go_error" where
  "call_error (UploadFile localPath key err) = err"
| "call_error (DeleteObject key err) = err"
| "call_error (DownloadFile key localPath err) = err"
| "call_error (Remove path err) = err"
| "call_error (MkdirAll path err) = err"

definition failedCalls :: "call list \<Rightarrow> call list" where
  "failedCalls cs = filter (\<lambda>c. call_error c \<noteq> None) cs"

text \<open>The keys of the uploads, deletions and downloads attempted, and the paths of the removals.\<close>

fun uploadKeys :: "call list \<Rightarrow> string list" where
  "uploadKeys [] = []"
| "uploadKeys (UploadFile localPath key err # cs) = key # uploadKeys cs"
| "uploadKeys (c # cs) = uploadKeys cs"

fun deleteKeys :: "call list \<Rightarrow> string list" where
  "deleteKeys [] = []"
| "deleteKeys (DeleteObject key err # cs) = key # deleteKeys cs"
| "deleteKeys (c # cs) = deleteKeys cs"

fun downloadKeys :: "call list \<Rightarrow> string list" where
  "downloadKeys [] = []"
| "downloadKeys (DownloadFile key localPath err # cs) = key # downloadKeys cs"
| "downloadKeys (c # cs) = downloadKeys cs"

fun removePaths :: "call list \<Rightarrow> string list" where
  "removePaths [] = []"
| "removePaths (Remove path err # cs) = path # removePaths cs"
| "removePaths (c # cs) = removePaths cs"

text \<open>
  What holds of the state of a live run at every moment: the counter of failures is the
  number of calls that returned an error, every call is counted once, and a call was made
  for every path selected for transfer or deletion.  (A live \<open>Pull\<close> starts with the call
  of \<open>os.MkdirAll\<close>, which no counter counts.)
\<close>

definition push_live_inv :: "push_state \<Rightarrow> bool" where
  "push_live_inv s =
     (Failed (stats s) = length (failedCalls (calls s))
      \<and> Uploaded (stats s) + Deleted (stats s) + Failed (stats s) = length (calls s)
      \<and> uploadKeys (calls s) = map fst (toTransfer s)
      \<and> deleteKeys (calls s) = toDelete s)"

definition pull_live_inv :: "pull_state \<Rightarrow> bool" where
  "pull_live_inv s =
     (pull_Failed (stats s) = length (failedCalls (calls s))
      \<and> Suc (Downloaded (stats s) + pull_Deleted (stats s) + pull_Failed (stats s)) = length (calls s)
      \<and> downloadKeys (calls s) = map fst (toTransfer s)
      \<and> length (removePaths (calls s)) = length (toDelete s))"

section \<open>An example\<close>

text \<open>
  A bucket with a directory marker and four objects under \<open>data/\<close>, and a local directory
  \<open>/mnt/data\<close> with four files.  The upload and the download of \<open>data/a.txt\<close> fail, as
  do the deletion of \<open>data/old.txt\<close> and the removal of \<open>/mnt/data/b.txt\<close>.
\<close>

definition exObjects :: "S3Object list" where
  "exObjects =
     [\<lparr>Key = ''data/'', Size = 0, LastModified = 0, ETag = []\<rparr>,
      \<lparr>Key = ''data/a.txt'', Size = 10, LastModified = 0, ETag = []\<rparr>,
      \<lparr>Key = ''data/c.log'', Size = 7, LastModified = 0, ETag = []\<rparr>,
      \<lparr>Key = ''data/d.txt'', Size = 4, LastModified = 0, ETag = []\<rparr>,
      \<lparr>Key = ''data/old.txt'', Size = 1, LastModified = 0, ETag = []\<rparr>]"

definition exVisits :: "walk_entry list" where
  "exVisits =
     [\<lparr>wPath = ''/mnt/data'',
       wInfo = \<lparr>fiSize = 0, fiModTime = 0, fiIsDir = True\<rparr>, wErr = None\<rparr>,
      \<lparr>wPath = ''/mnt/data/a.txt'',
       wInfo = \<lparr>fiSize = 10, fiModTime = 5 * Second, fiIsDir = False\<rparr>, wErr = None\<rparr>,
      \<lparr>wPath = ''/mnt/data/b.txt'',
       wInfo = \<lparr>fiSize = 3, fiModTime = 0, fiIsDir = False\<rparr>, wErr = None\<rparr>,
      \<lparr>wPath = ''/mnt/data/c.log'',
       wInfo = \<lparr>fiSize = 7, fiModTime = 0, fiIsDir = False\<rparr>, wErr = None\<rparr>,
      \<lparr>wPath = ''/mnt/data/d.txt'',
       wInfo = \<lparr>fiSize = 4, fiModTime = 0, fiIsDir = False\<rparr>, wErr = None\<rparr>]"

definition exWorld :: world where
  "exWorld =
     \<lparr>client_ListObjects = (\<lambda>prefix. Inr exObjects),
      client_UploadFile =
        (\<lambda>history localPath key. if key = ''data/a.txt'' then Some ''timeout'' else None),
      client_DeleteObject =
        (\<lambda>history key. if key = ''data/old.txt'' then Some ''denied'' else None),
      client_DownloadFile =
        (\<lambda>history key localPath. if key = ''data/a.txt'' then Some ''timeout'' else None),
      os_Stat = (\<lambda>history path.
         if path = ''/mnt/data'' then Inr \<lparr>fiSize = 0, fiModTime = 0, fiIsDir = True\<rparr>
         else if path = ''/mnt/data/d.txt'' then Inr \<lparr>fiSize = 4, fiModTime = 0, fiIsDir = False\<rparr>
         else if path = ''/mnt/data/a.txt'' then Inr \<lparr>fiSize = 9, fiModTime = 0, fiIsDir = False\<rparr>
         else Inl ErrNotExist),
      os_Remove = (\<lambda>history path. if path = ''/mnt/data/b.txt'' then Some ''busy'' else None),
      os_MkdirAll = (\<lambda>history path. None),
      filepath_Walk = (\<lambda>history root. exVisits),
      filepath_Join = (\<lambda>dir name. dir @ ''/'' @ name),
      filepath_Rel = (\<lambda>base target.
         if HasPrefix target (base @ ''/'') then Inr (drop (length base + 1) target)
         else Inl ''Rel: cannot make the target relative to the base''),
      filepath_ToSlash = (\<lambda>path. path),
      filepath_Match = (\<lambda>pattern name. (pattern = ''data/*.log'' \<and> name = ''data/c.log'', None))\<rparr>"

definition exPush :: PushOptions where
  "exPush = \<lparr>Prefix = ''data'', DryRun = False, Delete = True,
             ExcludeGlobs = [''data/*.log''], MountPath = ''/mnt''\<rparr>"

definition exPull :: PullOptions where
  "exPull = \<lparr>pull_Prefix = ''data'', pull_DryRun = False, pull_Delete = True,
             pull_MountPath = ''/mnt''\<rparr>"

text \<open>
  Variants: the same world without the local directory; a push without exclusion rules
  and deletions; the dry runs.
\<close>

definition exAbsent :: world where
  "exAbsent = exWorld\<lparr>os_Stat := (\<lambda>history path. Inl ErrNotExist)\<rparr>"

definition exPlain :: PushOptions where
  "exPlain = exPush\<lparr>Delete := False, ExcludeGlobs := []\<rparr>"

definition exDryPush :: PushOptions where
  "exDryPush = exPush\<lparr>DryRun := True\<rparr>"

definition exDryPull :: PullOptions where
  "exDryPull = exPull\<lparr>pull_DryRun := True\<rparr>"

section \<open>Properties of the comparison\<close>

text \<open>
  Claim C2.  When the path has a counterpart of equal size, it is selected for transfer
  exactly when the source's modification time exceeds the target's by strictly more than
  one second: not at exactly 1000 ms, and at 1001 ms it is.  This holds for push
  (\<open>needsUpload\<close>, where a counterpart is a remote object with a non-empty key) and for
  pull (\<open>needsDownload\<close>, where a counterpart is a local file that \<open>os.Stat\<close> finds).
\<close>

theorem C2_tolerance_boundary:
  assumes "Key remoteObj \<noteq> []" and "fiSize localInfo = Size remoteObj"
    and "stat localPath = Inr info" and "fiSize info = Size obj"
  shows "(fst (needsUpload path localInfo remoteObj)
            \<longleftrightarrow> LastModified remoteObj + 1 * Second < fiModTime localInfo)
       \<and> (fiModTime localInfo = LastModified remoteObj + 1000 * Millisecond
            \<longrightarrow> \<not> fst (needsUpload path localInfo remoteObj))
       \<and> (fiModTime localInfo = LastModified remoteObj + 1001 * Millisecond
            \<longrightarrow> fst (needsUpload path localInfo remoteObj))
       \<and> (fst (needsDownload stat obj localPath)
            \<longleftrightarrow> fiModTime info + 1 * Second < LastModified obj)
       \<and> (LastModified obj = fiModTime info + 1000 * Millisecond
            \<longrightarrow> \<not> fst (needsDownload stat obj localPath))
       \<and> (LastModified obj = fiModTime info + 1001 * Millisecond
            \<longrightarrow> fst (needsDownload stat obj localPath))"
  using assms
  by (simp add: needsUpload_def needsDownload_def After_def Add_def Second_def Millisecond_def)

theorem C2_tolerance_boundary_witness:
  "\<not> fst (needsUpload ''/mnt/a.txt''
       \<lparr>fiSize = 10, fiModTime = 1000 * Millisecond, fiIsDir = False\<rparr>
       \<lparr>Key = ''a.txt'', Size = 10, LastModified = 0, ETag = []\<rparr>)
   \<and> \<not> fst (needsDownload
       (\<lambda>p. Inr \<lparr>fiSize = 10, fiModTime = 0, fiIsDir = False\<rparr>)
       \<lparr>Key = ''a.txt'', Size = 10, LastModified = 1000 * Millisecond, ETag = []\<rparr>
       ''/mnt/a.txt'')"
  using C2_tolerance_boundary [of
      "\<lparr>Key = ''a.txt'', Size = 10, LastModified = 0, ETag = []\<rparr>"
      "\<lparr>fiSize = 10, fiModTime = 1000 * Millisecond, fiIsDir = False\<rparr>"
      "\<lambda>p. Inr \<lparr>fiSize = 10, fiModTime = 0, fiIsDir = False\<rparr>"
      "''/mnt/a.txt''"
      "\<lparr>fiSize = 10, fiModTime = 0, fiIsDir = False\<rparr>"
      "\<lparr>Key = ''a.txt'', Size = 10, LastModified = 1000 * Millisecond, ETag = []\<rparr>"
      "''/mnt/a.txt''"]
  by (simp add: Second_def Millisecond_def)

text \<open>
  Claim C7, as stated: the transfer entry of a path whose counterpart has the same size
  and is older by more than the tolerance carries the reason "source is newer".  The code
  gives another text: at this input \<open>needsUpload\<close> answers "local is newer".
\<close>

theorem C7_reason_counterexample:
  "Key \<lparr>Key = ''a.txt'', Size = 10, LastModified = 0, ETag = []\<rparr> \<noteq> []
   \<and> fiSize \<lparr>fiSize = 10, fiModTime = 5 * Second, fiIsDir = False\<rparr>
       = Size \<lparr>Key = ''a.txt'', Size = 10, LastModified = 0, ETag = []\<rparr>
   \<and> LastModified \<lparr>Key = ''a.txt'', Size = 10, LastModified = 0, ETag = []\<rparr> + 1 * Second
       < fiModTime \<lparr>fiSize = 10, fiModTime = 5 * Second, fiIsDir = False\<rparr>
   \<and> needsUpload ''/mnt/a.txt''
       \<lparr>fiSize = 10, fiModTime = 5 * Second, fiIsDir = False\<rparr>
       \<lparr>Key = ''a.txt'', Size = 10, LastModified = 0, ETag = []\<rparr> = (True, ''local is newer'')
   \<and> snd (needsUpload ''/mnt/a.txt''
       \<lparr>fiSize = 10, fiModTime = 5 * Second, fiIsDir = False\<rparr>
       \<lparr>Key = ''a.txt'', Size = 10, LastModified = 0, ETag = []\<rparr>) \<noteq> ''source is newer''"
  by (simp add: needsUpload_def After_def Add_def Second_def Millisecond_def)

text \<open>
  Claim C7, amended: under the same conditions the path is selected for transfer and the
  reason names the direction: "local is newer" for push and "remote is newer" for pull.
  The reasons of a transfer entry are "new file", "size differs" and "local is newer" for
  push, and "new file", "stat error", "size differs" and "remote is newer" for pull.
\<close>

theorem C7_reason_names_direction:
  "(Key remoteObj \<noteq> [] \<and> fiSize localInfo = Size remoteObj
      \<and> LastModified remoteObj + 1 * Second < fiModTime localInfo
      \<longrightarrow> needsUpload path localInfo remoteObj = (True, ''local is newer''))
   \<and> (stat localPath = Inr info \<and> fiSize info = Size obj
      \<and> fiModTime info + 1 * Second < LastModified obj
      \<longrightarrow> needsDownload stat obj localPath = (True, ''remote is newer''))
   \<and> (fst (needsUpload path localInfo remoteObj)
      \<longrightarrow> snd (needsUpload path localInfo remoteObj)
            \<in> {''new file'', ''size differs'', ''local is newer''})
   \<and> (fst (needsDownload stat obj localPath)
      \<longrightarrow> snd (needsDownload stat obj localPath)
            \<in> {''new file'', ''stat error'', ''size differs'', ''remote is newer''})"
  by (simp add: needsUpload_def needsDownload_def After_def Add_def Second_def Millisecond_def
      split: sum.splits)

theorem C7_reason_names_direction_witness:
  "needsUpload ''/mnt/a.txt''
       \<lparr>fiSize = 10, fiModTime = 5 * Second, fiIsDir = False\<rparr>
       \<lparr>Key = ''a.txt'', Size = 10, LastModified = 0, ETag = []\<rparr> = (True, ''local is newer'')
   \<and> needsDownload
       (\<lambda>p. Inr \<lparr>fiSize = 10, fiModTime = 0, fiIsDir = False\<rparr>)
       \<lparr>Key = ''a.txt'', Size = 10, LastModified = 5 * Second, ETag = []\<rparr>
       ''/mnt/a.txt'' = (True, ''remote is newer'')"
  using C7_reason_names_direction [of
      "\<lparr>Key = ''a.txt'', Size = 10, LastModified = 0, ETag = []\<rparr>"
      "\<lparr>fiSize = 10, fiModTime = 5 * Second, fiIsDir = False\<rparr>"
      "''/mnt/a.txt''"
      "\<lambda>p. Inr \<lparr>fiSize = 10, fiModTime = 0, fiIsDir = False\<rparr>"
      "''/mnt/a.txt''"
      "\<lparr>fiSize = 10, fiModTime = 0, fiIsDir = False\<rparr>"
      "\<lparr>Key = ''a.txt'', Size = 10, LastModified = 5 * Second, ETag = []\<rparr>"]
  by (simp add: Second_def Millisecond_def)

section \<open>Properties of the exclusion check\<close>

text \<open>
  Claim C4.  \<open>shouldExclude\<close> answers true exactly when some rule of the list matches the
  path in one of three ways: \<open>filepath.Match\<close> reports a match without error; the rule
  ends in \<open>/*\<close> and the path starts with the rule minus \<open>/*\<close>, followed by \<open>/\<close>; or
  the path equals the rule.  When \<open>filepath.Match\<close> reports a malformed pattern, the
  glob reading of that rule counts as no match and the evaluation goes on: with the other
  two readings of the rule, then with the remaining rules.  This holds for every
  behaviour of \<open>filepath.Match\<close>.
\<close>

theorem C4_shouldExclude_union:
  "(shouldExclude Match path patterns \<longleftrightarrow>
     (\<exists>pattern \<in> set patterns.
        (snd (Match pattern path) = None \<and> fst (Match pattern path))
        \<or> (HasSuffix pattern ''/*'' \<and> HasPrefix path (TrimSuffix pattern ''/*'' @ ''/''))
        \<or> path = pattern))
   \<and> (snd (Match bad path) \<noteq> None \<longrightarrow>
        (shouldExclude Match path (bad # patterns) \<longleftrightarrow>
           (HasSuffix bad ''/*'' \<and> HasPrefix path (TrimSuffix bad ''/*'' @ ''/''))
           \<or> path = bad
           \<or> shouldExclude Match path patterns))"
proof
  show "shouldExclude Match path patterns \<longleftrightarrow>
     (\<exists>pattern \<in> set patterns.
        (snd (Match pattern path) = None \<and> fst (Match pattern path))
        \<or> (HasSuffix pattern ''/*'' \<and> HasPrefix path (TrimSuffix pattern ''/*'' @ ''/''))
        \<or> path = pattern)"
    by (induction patterns) (auto split: prod.splits)
  show "snd (Match bad path) \<noteq> None \<longrightarrow>
        (shouldExclude Match path (bad # patterns) \<longleftrightarrow>
           (HasSuffix bad ''/*'' \<and> HasPrefix path (TrimSuffix bad ''/*'' @ ''/''))
           \<or> path = bad
           \<or> shouldExclude Match path patterns)"
    by (auto split: prod.splits)
qed

theorem C4_shouldExclude_union_witness:
  "shouldExclude (\<lambda>pattern name. if pattern = ''['' then (False, Some ''syntax error in pattern'')
                                 else (pattern = ''*'' \<and> CHR ''/'' \<notin> set name, None))
     ''logs/2024/a.txt'' [''['', ''logs/*'']
   \<and> \<not> shouldExclude (\<lambda>pattern name. if pattern = ''['' then (False, Some ''syntax error in pattern'')
                                 else (pattern = ''*'' \<and> CHR ''/'' \<notin> set name, None))
     ''logs/2024/a.txt'' [''['']"
  using C4_shouldExclude_union [of
      "\<lambda>pattern name. if pattern = ''['' then (False, Some ''syntax error in pattern'')
                      else (pattern = ''*'' \<and> CHR ''/'' \<notin> set name, None)"
      "''logs/2024/a.txt''" "[''['', ''logs/*'']" "''[''"]
  by (simp add: HasSuffix_def HasPrefix_def TrimSuffix_def)

section \<open>The record of the calls\<close>

lemma uploadKeys_append [simp]: "uploadKeys (xs @ ys) = uploadKeys xs @ uploadKeys ys"
  by (induction xs rule: uploadKeys.induct) simp_all

lemma deleteKeys_append [simp]: "deleteKeys (xs @ ys) = deleteKeys xs @ deleteKeys ys"
  by (induction xs rule: deleteKeys.induct) simp_all

lemma failedCalls_append [simp]: "failedCalls (xs @ ys) = failedCalls xs @ failedCalls ys"
  by (simp add: failedCalls_def)

section \<open>The walk\<close>

lemma Walk_invariant:
  assumes "\<And>e s. P s \<Longrightarrow> P (snd (fn e s))" and "P s"
  shows "P (snd (Walk es fn s))"
  using assms(2)
proof (induction es arbitrary: s)
  case Nil
  then show ?case by simp
next
  case (Cons e es)
  obtain r s' where step: "fn e s = (r, s')" by (cases "fn e s")
  have "P s'" using assms(1) [OF Cons.prems, of e] step by simp
  then show ?case using Cons.IH [of s'] step by (cases r) simp_all
qed

lemma Walk_error_iff:
  assumes "\<And>e s. (fst (fn e s) = None) = ok e"
  shows "(fst (Walk es fn s) = None) = (\<forall>e \<in> set es. ok e)"
proof (induction es arbitrary: s)
  case Nil
  then show ?case by simp
next
  case (Cons e es)
  obtain r s' where step: "fn e s = (r, s')" by (cases "fn e s")
  have "(r = None) = ok e" using assms [of e s] step by simp
  then show ?case using Cons.IH [of s'] step by (cases r) auto
qed

section \<open>One visit of a push\<close>

lemma push_walkFn_error_iff:
  "(fst (push_walkFn w opts rf e s) = None) = visitOK w (MountPath opts) e"
  by (auto simp: push_walkFn_def visitOK_def Let_def split: option.splits sum.splits prod.splits)

lemma push_walkFn_toTransfer:
  "visitOK w (MountPath opts) e \<Longrightarrow>
   toTransfer (snd (push_walkFn w opts rf e s)) =
     toTransfer s @ (if considered w opts e \<and> fst (decision w opts rf e)
                     then [(s3KeyOf w (MountPath opts) e, snd (decision w opts rf e))] else [])"
  by (auto simp: push_walkFn_def visitOK_def considered_def decision_def s3KeyOf_def Let_def
      split: option.splits sum.splits prod.splits)

lemma push_walkFn_toSkip:
  "visitOK w (MountPath opts) e \<Longrightarrow>
   toSkip (snd (push_walkFn w opts rf e s)) =
     toSkip s @ (if considered w opts e \<and> \<not> fst (decision w opts rf e)
                     then [s3KeyOf w (MountPath opts) e] else [])"
  by (auto simp: push_walkFn_def visitOK_def considered_def decision_def s3KeyOf_def Let_def
      split: option.splits sum.splits prod.splits)

lemma push_walkFn_localFiles:
  "visitOK w (MountPath opts) e \<Longrightarrow>
   localFiles (snd (push_walkFn w opts rf e s)) key =
     (localFiles s key \<or> (considered w opts e \<and> s3KeyOf w (MountPath opts) e = key))"
  by (auto simp: push_walkFn_def visitOK_def considered_def decision_def s3KeyOf_def Let_def
      split: option.splits sum.splits prod.splits)

lemma push_walkFn_toDelete:
  "toDelete (snd (push_walkFn w opts rf e s)) = toDelete s"
  by (auto simp: push_walkFn_def Let_def split: option.splits sum.splits prod.splits)

lemma push_walkFn_dry:
  "DryRun opts \<Longrightarrow> calls (snd (push_walkFn w opts rf e s)) = calls s
     \<and> stats (snd (push_walkFn w opts rf e s)) = stats s"
  by (auto simp: push_walkFn_def Let_def split: option.splits sum.splits prod.splits)

lemma push_walkFn_live_inv:
  "\<not> DryRun opts \<Longrightarrow> push_live_inv s \<Longrightarrow> push_live_inv (snd (push_walkFn w opts rf e s))"
  by (auto simp: push_walkFn_def push_live_inv_def failedCalls_def Let_def
      split: option.splits sum.splits prod.splits)

lemma push_walkFn_uploads_seen:
  "\<forall>key \<in> set (uploadKeys (calls s)). localFiles s key \<Longrightarrow>
   \<forall>key \<in> set (uploadKeys (calls (snd (push_walkFn w opts rf e s)))).
      localFiles (snd (push_walkFn w opts rf e s)) key"
  by (auto simp: push_walkFn_def Let_def split: option.splits sum.splits prod.splits)

section \<open>The walk of a push\<close>

lemma push_Walk_error_iff:
  "(fst (Walk es (push_walkFn w opts rf) s) = None) = (\<forall>e \<in> set es. visitOK w (MountPath opts) e)"
  by (rule Walk_error_iff) (rule push_walkFn_error_iff)

lemma push_Walk_toTransfer:
  "\<forall>e \<in> set es. visitOK w (MountPath opts) e \<Longrightarrow>
   toTransfer (snd (Walk es (push_walkFn w opts rf) s)) =
     toTransfer s @ map (\<lambda>e. (s3KeyOf w (MountPath opts) e, snd (decision w opts rf e)))
       (filter (\<lambda>e. considered w opts e \<and> fst (decision w opts rf e)) es)"
proof (induction es arbitrary: s)
  case Nil
  then show ?case by simp
next
  case (Cons e es)
  obtain r s' where step: "push_walkFn w opts rf e s = (r, s')" by (cases "push_walkFn w opts rf e s")
  have ok: "visitOK w (MountPath opts) e" using Cons.prems by simp
  have r: "r = None" using push_walkFn_error_iff [of w opts rf e s] ok step by simp
  have "toTransfer s' = toTransfer s @ (if considered w opts e \<and> fst (decision w opts rf e)
                     then [(s3KeyOf w (MountPath opts) e, snd (decision w opts rf e))] else [])"
    using push_walkFn_toTransfer [OF ok, of rf s] step by simp
  then show ?case using Cons.IH [of s'] Cons.prems step r by simp
qed

lemma push_Walk_toSkip:
  "\<forall>e \<in> set es. visitOK w (MountPath opts) e \<Longrightarrow>
   toSkip (snd (Walk es (push_walkFn w opts rf) s)) =
     toSkip s @ map (s3KeyOf w (MountPath opts))
       (filter (\<lambda>e. considered w opts e \<and> \<not> fst (decision w opts rf e)) es)"
proof (induction es arbitrary: s)
  case Nil
  then show ?case by simp
next
  case (Cons e es)
  obtain r s' where step: "push_walkFn w opts rf e s = (r, s')" by (cases "push_walkFn w opts rf e s")
  have ok: "visitOK w (MountPath opts) e" using Cons.prems by simp
  have r: "r = None" using push_walkFn_error_iff [of w opts rf e s] ok step by simp
  have "toSkip s' = toSkip s @ (if considered w opts e \<and> \<not> fst (decision w opts rf e)
                     then [s3KeyOf w (MountPath opts) e] else [])"
    using push_walkFn_toSkip [OF ok, of rf s] step by simp
  then show ?case using Cons.IH [of s'] Cons.prems step r by simp
qed

lemma push_Walk_localFiles:
  "\<forall>e \<in> set es. visitOK w (MountPath opts) e \<Longrightarrow>
   localFiles (snd (Walk es (push_walkFn w opts rf) s)) key =
     (localFiles s key \<or> (\<exists>e \<in> set es. considered w opts e \<and> s3KeyOf w (MountPath opts) e = key))"
proof (induction es arbitrary: s)
  case Nil
  then show ?case by simp
next
  case (Cons e es)
  obtain r s' where step: "push_walkFn w opts rf e s = (r, s')" by (cases "push_walkFn w opts rf e s")
  have ok: "visitOK w (MountPath opts) e" using Cons.prems by simp
  have r: "r = None" using push_walkFn_error_iff [of w opts rf e s] ok step by simp
  have "localFiles s' key = (localFiles s key \<or> (considered w opts e \<and> s3KeyOf w (MountPath opts) e = key))"
    using push_walkFn_localFiles [OF ok, of rf s key] step by simp
  then show ?case using Cons.IH [of s'] Cons.prems step r by auto
qed

lemma push_Walk_toDelete:
  "toDelete s = [] \<Longrightarrow> toDelete (snd (Walk es (push_walkFn w opts rf) s)) = []"
  by (rule Walk_invariant) (simp_all add: push_walkFn_toDelete)

lemma push_Walk_dry:
  "DryRun opts \<Longrightarrow> calls s = [] \<and> stats s = st \<Longrightarrow>
     calls (snd (Walk es (push_walkFn w opts rf) s)) = [] \<and> stats (snd (Walk es (push_walkFn w opts rf) s)) = st"
  by (rule Walk_invariant [where P = "\<lambda>s. calls s = [] \<and> stats s = st"])
     (simp_all add: push_walkFn_dry)

lemma push_Walk_live_inv:
  "\<not> DryRun opts \<Longrightarrow> push_live_inv s \<Longrightarrow> push_live_inv (snd (Walk es (push_walkFn w opts rf) s))"
  by (rule Walk_invariant [where P = push_live_inv]) (simp_all add: push_walkFn_live_inv)

lemma push_Walk_uploads_seen:
  "\<forall>key \<in> set (uploadKeys (calls s)). localFiles s key \<Longrightarrow>
   \<forall>key \<in> set (uploadKeys (calls (snd (Walk es (push_walkFn w opts rf) s)))).
      localFiles (snd (Walk es (push_walkFn w opts rf) s)) key"
  by (rule Walk_invariant [where P = "\<lambda>s. \<forall>key \<in> set (uploadKeys (calls s)). localFiles s key"])
     (simp_all add: push_walkFn_uploads_seen)

section \<open>The deletions of a push\<close>

lemma push_deleteLoop_localFiles [simp]:
  "localFiles (push_deleteLoop w opts keys s) = localFiles s"
  by (induction keys arbitrary: s) (simp_all add: Let_def split: option.splits)

lemma push_deleteLoop_toTransfer [simp]:
  "toTransfer (push_deleteLoop w opts keys s) = toTransfer s"
  by (induction keys arbitrary: s) (simp_all add: Let_def split: option.splits)

lemma push_deleteLoop_toSkip [simp]:
  "toSkip (push_deleteLoop w opts keys s) = toSkip s"
  by (induction keys arbitrary: s) (simp_all add: Let_def split: option.splits)

lemma push_deleteLoop_toDelete:
  "toDelete (push_deleteLoop w opts keys s) = toDelete s @ filter (\<lambda>key. \<not> localFiles s key) keys"
  by (induction keys arbitrary: s) (simp_all add: Let_def split: option.splits)

text \<open>
  The keys the loop selects do not depend on the order in which it visits them: two
  orders of the same keys select the same set.
\<close>

lemma push_deleteLoop_any_order:
  "set keys = set keys' \<Longrightarrow>
   set (toDelete (push_deleteLoop w opts keys s)) = set (toDelete (push_deleteLoop w opts keys' s))"
  by (simp add: push_deleteLoop_toDelete)

lemma push_deleteLoop_uploadKeys [simp]:
  "uploadKeys (calls (push_deleteLoop w opts keys s)) = uploadKeys (calls s)"
  by (induction keys arbitrary: s) (simp_all add: Let_def split: option.splits)

lemma push_deleteLoop_dry:
  "DryRun opts \<Longrightarrow> calls (push_deleteLoop w opts keys s) = calls s
     \<and> stats (push_deleteLoop w opts keys s) = stats s"
  by (induction keys arbitrary: s) (simp_all add: Let_def)

lemma push_deleteLoop_live_inv:
  "\<not> DryRun opts \<Longrightarrow> push_live_inv s \<Longrightarrow> push_live_inv (push_deleteLoop w opts keys s)"
proof (induction keys arbitrary: s)
  case Nil
  then show ?case by simp
next
  case (Cons key keys)
  show ?case
    unfolding push_deleteLoop.simps
    by (rule Cons.IH [OF Cons.prems(1)])
       (use Cons.prems in \<open>auto simp: push_live_inv_def failedCalls_def Let_def split: option.splits\<close>)
qed

section \<open>The map of the remote objects\<close>

lemma push_remoteFiles_keys:
  "set (map fst (push_remoteFiles objs m)) = set (map fst m) \<union> set (nonDirKeys objs)"
  by (induction objs arbitrary: m) (auto simp: nonDirKeys_def dom_update)

lemma push_remoteFiles_distinct:
  "distinct (map fst m) \<Longrightarrow> distinct (map fst (push_remoteFiles objs m))"
  by (induction objs arbitrary: m) (simp_all add: distinct_update)

lemma index_remote_absent:
  "key \<notin> set (nonDirKeys T) \<Longrightarrow> index_remote (push_remoteFiles T []) key = zeroS3Object"
proof -
  assume "key \<notin> set (nonDirKeys T)"
  then have "key \<notin> fst ` set (push_remoteFiles T [])"
    using push_remoteFiles_keys [of T "[]"] by simp
  then have "map_of (push_remoteFiles T []) key = None"
    by (simp add: map_of_eq_None_iff)
  then show ?thesis by (simp add: index_remote_def)
qed

section \<open>The course of a push\<close>

lemma Push_invariant:
  assumes init: "P push_init"
    and step: "\<And>rf e s. P s \<Longrightarrow> P (snd (push_walkFn w opts rf e s))"
    and PQ: "\<And>s. P s \<Longrightarrow> Q s"
    and del: "\<And>keys s. Delete opts \<Longrightarrow> P s \<Longrightarrow> Q (push_deleteLoop w opts keys s)"
  shows "Q (snd (Push w opts))"
proof -
  have walk: "P (snd (Walk es (push_walkFn w opts rf) push_init))" for es rf
    by (rule Walk_invariant) (simp_all add: step init)
  have dels: "Q (snd (push_deletions w opts rf s))" if "P s" for rf s
    using that by (simp add: push_deletions_def Let_def PQ del)
  show ?thesis
  proof (cases "client_ListObjects w (Prefix opts)")
    case (Inl err)
    then show ?thesis by (simp add: Push_def PQ [OF init])
  next
    case (Inr T)
    show ?thesis
    proof (cases "os_Stat w [] (filepath_Join w (MountPath opts) (Prefix opts))")
      case (Inl err)
      then show ?thesis
        using Inr dels [OF init, of "push_remoteFiles T []"] PQ [OF init]
        by (cases err) (simp_all add: Push_def Let_def)
    next
      case stat: (Inr info)
      obtain r s where run: "Walk (filepath_Walk w [] (filepath_Join w (MountPath opts) (Prefix opts)))
          (push_walkFn w opts (push_remoteFiles T [])) push_init = (r, s)"
        by (cases "Walk (filepath_Walk w [] (filepath_Join w (MountPath opts) (Prefix opts)))
          (push_walkFn w opts (push_remoteFiles T [])) push_init")
      have "P s"
        using walk [of "filepath_Walk w [] (filepath_Join w (MountPath opts) (Prefix opts))"
            "push_remoteFiles T []"] run by simp
      then show ?thesis
        using Inr stat run dels [of s "push_remoteFiles T []"] PQ [of s]
        by (cases r) (simp_all add: Push_def Let_def)
    qed
  qed
qed

lemma Push_result_stats:
  "fst (Push w opts) = Inr st \<Longrightarrow> st = stats (snd (Push w opts))"
  by (auto simp: Push_def push_deletions_def Let_def
      split: sum.splits os_error.splits prod.splits option.splits if_splits)

lemma Push_completes:
  assumes "client_ListObjects w (Prefix opts) = Inr T"
    and "os_Stat w [] (push_prefixPath w opts) \<noteq> Inl ErrOther"
    and "\<forall>e \<in> set (push_visits w opts). visitOK w (MountPath opts) e"
  shows "Push w opts =
    push_deletions w opts (push_remoteFiles T [])
      (snd (Walk (push_visits w opts) (push_walkFn w opts (push_remoteFiles T [])) push_init))"
proof (cases "os_Stat w [] (push_prefixPath w opts)")
  case (Inl err)
  then have "err = ErrNotExist" using assms(2) by (cases err) simp_all
  then show ?thesis
    using Inl assms(1)
    by (simp add: Push_def push_visits_def push_prefixPath_def push_deletions_def Let_def)
next
  case (Inr info)
  have "fst (Walk (push_visits w opts) (push_walkFn w opts (push_remoteFiles T [])) push_init) = None"
    using assms(3) by (simp add: push_Walk_error_iff)
  then show ?thesis
    using Inr assms(1)
    by (auto simp: Push_def push_visits_def push_prefixPath_def Let_def split: prod.splits option.splits)
qed

lemma Push_Inr_D:
  assumes "fst (Push w opts) = Inr st"
  shows "(\<exists>T. client_ListObjects w (Prefix opts) = Inr T)
       \<and> os_Stat w [] (push_prefixPath w opts) \<noteq> Inl ErrOther
       \<and> (\<forall>e \<in> set (push_visits w opts). visitOK w (MountPath opts) e)"
proof (cases "client_ListObjects w (Prefix opts)")
  case (Inl err)
  then show ?thesis using assms by (simp add: Push_def)
next
  case (Inr T)
  show ?thesis
  proof (cases "os_Stat w [] (push_prefixPath w opts)")
    case (Inl err)
    then show ?thesis
      using assms Inr by (cases err) (simp_all add: Push_def push_visits_def push_prefixPath_def Let_def)
  next
    case stat: (Inr info)
    have "fst (Walk (push_visits w opts) (push_walkFn w opts (push_remoteFiles T [])) push_init) = None"
      using assms Inr stat
      by (auto simp: Push_def push_visits_def push_prefixPath_def Let_def split: prod.splits option.splits)
    then show ?thesis using Inr stat by (simp add: push_Walk_error_iff)
  qed
qed

lemma downloadKeys_append [simp]: "downloadKeys (xs @ ys) = downloadKeys xs @ downloadKeys ys"
  by (induction xs rule: downloadKeys.induct) simp_all

lemma removePaths_append [simp]: "removePaths (xs @ ys) = removePaths xs @ removePaths ys"
  by (induction xs rule: removePaths.induct) simp_all

section \<open>The downloads of a pull\<close>

lemma pull_downloadLoop_dry:
  "pull_DryRun opts \<Longrightarrow> calls (pull_downloadLoop w opts objects s) = calls s
     \<and> stats (pull_downloadLoop w opts objects s) = stats s"
  by (induction objects arbitrary: s) (simp_all add: Let_def split: prod.splits)

lemma pull_downloadLoop_toDelete [simp]:
  "toDelete (pull_downloadLoop w opts objects s) = toDelete s"
  by (induction objects arbitrary: s) (simp_all add: Let_def split: prod.splits option.splits)

lemma pull_downloadLoop_live_inv:
  "\<not> pull_DryRun opts \<Longrightarrow> pull_live_inv s \<Longrightarrow> pull_live_inv (pull_downloadLoop w opts objects s)"
proof (induction objects arbitrary: s)
  case Nil
  then show ?case by simp
next
  case (Cons obj objects)
  show ?case
    unfolding pull_downloadLoop.simps
    by (rule Cons.IH [OF Cons.prems(1)])
       (use Cons.prems in \<open>auto simp: pull_live_inv_def failedCalls_def Let_def
          split: option.splits prod.splits\<close>)
qed

lemma pull_downloadLoop_keys:
  "set (map fst (toTransfer (pull_downloadLoop w opts objects s))) \<union> set (toSkip (pull_downloadLoop w opts objects s))
     = set (map fst (toTransfer s)) \<union> set (toSkip s) \<union> set (nonDirKeys objects)"
proof (induction objects arbitrary: s)
  case Nil
  then show ?case by (simp add: nonDirKeys_def)
next
  case (Cons obj objects)
  show ?case
    unfolding pull_downloadLoop.simps
    by (subst Cons.IH) (auto simp: nonDirKeys_def Let_def split: option.splits prod.splits)
qed

lemma pull_downloadLoop_count:
  "length (toTransfer (pull_downloadLoop w opts objects s)) + length (toSkip (pull_downloadLoop w opts objects s))
     = length (toTransfer s) + length (toSkip s) + length (nonDirKeys objects)"
proof (induction objects arbitrary: s)
  case Nil
  then show ?case by (simp add: nonDirKeys_def)
next
  case (Cons obj objects)
  show ?case
    unfolding pull_downloadLoop.simps
    by (subst Cons.IH) (auto simp: nonDirKeys_def Let_def split: option.splits prod.splits)
qed

section \<open>The set of the remote keys\<close>

lemma pull_remoteKeys_iff:
  "pull_remoteKeys objects remoteKeys key = (remoteKeys key \<or> key \<in> set (nonDirKeys objects))"
  by (induction objects arbitrary: remoteKeys) (auto simp: nonDirKeys_def)

section \<open>The walk of a pull\<close>

lemma pull_walkFn_error_iff:
  "(fst (pull_walkFn w opts rk e s) = None) = visitOK w (pull_MountPath opts) e"
  by (auto simp: pull_walkFn_def visitOK_def Let_def split: option.splits sum.splits)

lemma pull_walkFn_dry:
  "pull_DryRun opts \<Longrightarrow> calls (snd (pull_walkFn w opts rk e s)) = calls s
     \<and> stats (snd (pull_walkFn w opts rk e s)) = stats s"
  by (auto simp: pull_walkFn_def Let_def split: option.splits sum.splits)

lemma pull_walkFn_live_inv:
  "\<not> pull_DryRun opts \<Longrightarrow> pull_live_inv s \<Longrightarrow> pull_live_inv (snd (pull_walkFn w opts rk e s))"
  by (auto simp: pull_walkFn_def pull_live_inv_def failedCalls_def Let_def
      split: option.splits sum.splits)

lemma pull_walkFn_toDelete:
  "visitOK w (pull_MountPath opts) e \<Longrightarrow>
   toDelete (snd (pull_walkFn w opts rk e s)) =
     toDelete s @ (if \<not> fiIsDir (wInfo e) \<and> \<not> rk (s3KeyOf w (pull_MountPath opts) e)
                   then [s3KeyOf w (pull_MountPath opts) e] else [])"
  by (auto simp: pull_walkFn_def visitOK_def s3KeyOf_def Let_def split: option.splits sum.splits)

lemma pull_walkFn_plan:
  "toTransfer (snd (pull_walkFn w opts rk e s)) = toTransfer s
     \<and> toSkip (snd (pull_walkFn w opts rk e s)) = toSkip s"
  by (auto simp: pull_walkFn_def Let_def split: option.splits sum.splits)

lemma pull_Walk_error_iff:
  "(fst (Walk es (pull_walkFn w opts rk) s) = None) = (\<forall>e \<in> set es. visitOK w (pull_MountPath opts) e)"
  by (rule Walk_error_iff) (rule pull_walkFn_error_iff)

lemma pull_Walk_dry:
  "pull_DryRun opts \<Longrightarrow> calls s = [] \<and> stats s = st \<Longrightarrow>
     calls (snd (Walk es (pull_walkFn w opts rk) s)) = [] \<and> stats (snd (Walk es (pull_walkFn w opts rk) s)) = st"
  by (rule Walk_invariant [where P = "\<lambda>s. calls s = [] \<and> stats s = st"])
     (simp_all add: pull_walkFn_dry)

lemma pull_Walk_live_inv:
  "\<not> pull_DryRun opts \<Longrightarrow> pull_live_inv s \<Longrightarrow> pull_live_inv (snd (Walk es (pull_walkFn w opts rk) s))"
  by (rule Walk_invariant [where P = pull_live_inv]) (simp_all add: pull_walkFn_live_inv)

lemma pull_Walk_plan:
  "toTransfer (snd (Walk es (pull_walkFn w opts rk) s)) = toTransfer s
     \<and> toSkip (snd (Walk es (pull_walkFn w opts rk) s)) = toSkip s"
  by (rule Walk_invariant [where P = "\<lambda>s'. toTransfer s' = toTransfer s \<and> toSkip s' = toSkip s"])
     (simp_all add: pull_walkFn_plan)

lemma pull_Walk_toDelete:
  "\<forall>e \<in> set es. visitOK w (pull_MountPath opts) e \<Longrightarrow>
   toDelete (snd (Walk es (pull_walkFn w opts rk) s)) =
     toDelete s @ map (s3KeyOf w (pull_MountPath opts))
       (filter (\<lambda>e. \<not> fiIsDir (wInfo e) \<and> \<not> rk (s3KeyOf w (pull_MountPath opts) e)) es)"
proof (induction es arbitrary: s)
  case Nil
  then show ?case by simp
next
  case (Cons e es)
  obtain r s' where step: "pull_walkFn w opts rk e s = (r, s')" by (cases "pull_walkFn w opts rk e s")
  have ok: "visitOK w (pull_MountPath opts) e" using Cons.prems by simp
  have r: "r = None" using pull_walkFn_error_iff [of w opts rk e s] ok step by simp
  have "toDelete s' = toDelete s @ (if \<not> fiIsDir (wInfo e) \<and> \<not> rk (s3KeyOf w (pull_MountPath opts) e)
                   then [s3KeyOf w (pull_MountPath opts) e] else [])"
    using pull_walkFn_toDelete [OF ok, of rk s] step by simp
  then show ?case using Cons.IH [of s'] Cons.prems step r by simp
qed

section \<open>The course of a pull\<close>

lemma pull_deletions_dry:
  "pull_DryRun opts \<Longrightarrow> calls s = [] \<and> stats s = st \<Longrightarrow>
   calls (snd (pull_deletions w opts objects s)) = [] \<and> stats (snd (pull_deletions w opts objects s)) = st"
  using pull_Walk_dry [of opts s st "filepath_Walk w (calls s) (filepath_Join w (pull_MountPath opts) (pull_Prefix opts))"
      w "pull_remoteKeys objects (\<lambda>key. False)"]
  by (auto simp: pull_deletions_def Let_def split: prod.splits option.splits)

lemma pull_deletions_result_stats:
  "fst (pull_deletions w opts objects s) = Inr st \<Longrightarrow> st = stats (snd (pull_deletions w opts objects s))"
  by (auto simp: pull_deletions_def Let_def split: prod.splits option.splits if_splits)

lemma Pull_result_stats:
  "fst (Pull w opts) = Inr st \<Longrightarrow> st = stats (snd (Pull w opts))"
  by (auto simp: Pull_def dest: pull_deletions_result_stats split: sum.splits option.splits if_splits)

lemma Pull_dry:
  assumes "pull_DryRun opts"
  shows "calls (snd (Pull w opts)) = [] \<and> stats (snd (Pull w opts)) = stats pull_init"
proof (cases "client_ListObjects w (pull_Prefix opts)")
  case (Inl err)
  then show ?thesis by (simp add: Pull_def pull_init_def)
next
  case (Inr objects)
  have "calls (pull_downloadLoop w opts objects pull_init) = [] \<and>
        stats (pull_downloadLoop w opts objects pull_init) = stats pull_init"
    using pull_downloadLoop_dry [OF assms, of w objects pull_init] by (simp add: pull_init_def)
  then show ?thesis
    using Inr assms pull_deletions_dry [OF assms, of "pull_downloadLoop w opts objects pull_init"
        "stats pull_init" w objects]
    by (simp add: Pull_def)
qed

lemma Pull_completes:
  assumes "\<not> pull_DryRun opts"
    and "client_ListObjects w (pull_Prefix opts) = Inr objects"
    and "os_MkdirAll w [] (pull_MountPath opts) = None"
  shows "Pull w opts = pull_deletions w opts objects
     (pull_downloadLoop w opts objects (pull_init\<lparr>calls := [MkdirAll (pull_MountPath opts) None]\<rparr>))"
  using assms by (simp add: Pull_def)

lemma pull_deletions_completes:
  assumes "pull_Delete opts \<longrightarrow>
     (\<forall>e \<in> set (filepath_Walk w (calls s) (pull_prefixPath w opts)). visitOK w (pull_MountPath opts) e)"
  shows "fst (pull_deletions w opts objects s) = Inr (stats (snd (pull_deletions w opts objects s)))"
proof (cases "pull_Delete opts")
  case False
  then show ?thesis by (simp add: pull_deletions_def)
next
  case True
  have "fst (Walk (filepath_Walk w (calls s) (pull_prefixPath w opts))
          (pull_walkFn w opts (pull_remoteKeys objects (\<lambda>key. False))) s) = None"
    using assms True by (simp add: pull_Walk_error_iff)
  then show ?thesis
    using True by (auto simp: pull_deletions_def pull_prefixPath_def Let_def split: prod.splits option.splits)
qed

lemma pull_deletions_live_inv:
  "\<not> pull_DryRun opts \<Longrightarrow> pull_live_inv s \<Longrightarrow> pull_live_inv (snd (pull_deletions w opts objects s))"
  using pull_Walk_live_inv [of opts s "filepath_Walk w (calls s) (filepath_Join w (pull_MountPath opts) (pull_Prefix opts))"
      w "pull_remoteKeys objects (\<lambda>key. False)"]
  by (auto simp: pull_deletions_def Let_def split: prod.splits option.splits)

lemma pull_deletions_plan:
  "toTransfer (snd (pull_deletions w opts objects s)) = toTransfer s
     \<and> toSkip (snd (pull_deletions w opts objects s)) = toSkip s"
  using pull_Walk_plan [of "filepath_Walk w (calls s) (filepath_Join w (pull_MountPath opts) (pull_Prefix opts))"
      w opts "pull_remoteKeys objects (\<lambda>key. False)" s]
  by (auto simp: pull_deletions_def Let_def split: prod.splits option.splits)

section \<open>Splitting a list in two\<close>

lemma distinct_map_filter_split:
  "distinct (map f xs) \<Longrightarrow>
   distinct (map f (filter Q xs) @ map f (filter (\<lambda>x. \<not> Q x) xs))"
  by (induction xs) auto

lemma set_map_filter_split:
  "set (map f (filter Q xs)) \<union> set (map f (filter (\<lambda>x. \<not> Q x) xs)) = set (map f xs)"
  by auto

section \<open>The end of a push\<close>

lemma push_deletions_no_Delete:
  "\<not> Delete opts \<Longrightarrow> push_deletions w opts rf s = (Inr (stats s), s)"
  by (simp add: push_deletions_def)

lemma push_deletions_Delete:
  "Delete opts \<Longrightarrow> push_deletions w opts rf s =
     (Inr (stats (push_deleteLoop w opts (map fst rf) s)), push_deleteLoop w opts (map fst rf) s)"
  by (simp add: push_deletions_def Let_def)

lemma decision_new_file:
  "s3KeyOf w (MountPath opts) e \<notin> set (nonDirKeys T) \<Longrightarrow>
   decision w opts (push_remoteFiles T []) e = (True, ''new file'')"
  by (simp add: decision_def index_remote_absent needsUpload_def zeroS3Object_def)

section \<open>Whole runs\<close>

lemma uploadKeys_member:
  "UploadFile localPath key err \<in> set cs \<Longrightarrow> key \<in> set (uploadKeys cs)"
  by (induction cs rule: uploadKeys.induct) auto

lemma push_deleteLoop_Uploaded [simp]:
  "Uploaded (stats (push_deleteLoop w opts keys s)) = Uploaded (stats s)"
  by (induction keys arbitrary: s) (simp_all add: Let_def split: option.splits)

lemma push_live_inv_init: "push_live_inv push_init"
  by (simp add: push_live_inv_def push_init_def failedCalls_def)

lemma Push_live_inv: "\<not> DryRun opts \<Longrightarrow> push_live_inv (snd (Push w opts))"
  by (rule Push_invariant [where P = push_live_inv])
     (simp_all add: push_live_inv_init push_walkFn_live_inv push_deleteLoop_live_inv)

lemma Push_dry:
  "DryRun opts \<Longrightarrow> calls (snd (Push w opts)) = [] \<and> stats (snd (Push w opts)) = stats push_init"
  by (rule Push_invariant [where P = "\<lambda>s. calls s = [] \<and> stats s = stats push_init"])
     (simp_all add: push_walkFn_dry push_deleteLoop_dry push_init_def)

lemma push_walked_localFiles:
  assumes "\<forall>e \<in> set (push_visits w opts). visitOK w (MountPath opts) e"
  shows "localFiles (snd (Walk (push_visits w opts) (push_walkFn w opts rf) push_init)) key
         = (key \<in> set (push_source w opts))"
  using push_Walk_localFiles [OF assms, of rf push_init key]
  by (auto simp: push_source_def push_init_def)

lemma Push_toDelete:
  assumes list: "client_ListObjects w (Prefix opts) = Inr T"
    and stat: "os_Stat w [] (push_prefixPath w opts) \<noteq> Inl ErrOther"
    and visits: "\<forall>e \<in> set (push_visits w opts). visitOK w (MountPath opts) e"
    and del: "Delete opts"
  shows "toDelete (snd (Push w opts)) =
     filter (\<lambda>key. key \<notin> set (push_source w opts)) (map fst (push_remoteFiles T []))"
proof -
  let ?rf = "push_remoteFiles T []"
  let ?s = "snd (Walk (push_visits w opts) (push_walkFn w opts ?rf) push_init)"
  have "snd (Push w opts) = push_deleteLoop w opts (map fst ?rf) ?s"
    using Push_completes [OF list stat visits] del by (simp add: push_deletions_Delete)
  moreover have "toDelete ?s = []"
    by (rule push_Walk_toDelete) (simp add: push_init_def)
  ultimately show ?thesis
    by (simp add: push_deleteLoop_toDelete push_walked_localFiles [OF visits])
qed

lemma Push_toDelete_set:
  assumes list: "client_ListObjects w (Prefix opts) = Inr T"
    and stat: "os_Stat w [] (push_prefixPath w opts) \<noteq> Inl ErrOther"
    and visits: "\<forall>e \<in> set (push_visits w opts). visitOK w (MountPath opts) e"
    and del: "Delete opts"
  shows "set (toDelete (snd (Push w opts))) = set (nonDirKeys T) - set (push_source w opts)"
    and "distinct (toDelete (snd (Push w opts)))"
proof -
  have keys: "set (map fst (push_remoteFiles T [])) = set (nonDirKeys T)"
    using push_remoteFiles_keys [of T "[]"] by simp
  show "set (toDelete (snd (Push w opts))) = set (nonDirKeys T) - set (push_source w opts)"
    unfolding Push_toDelete [OF assms] using keys by auto
  have "distinct (map fst (push_remoteFiles T []))"
    by (rule push_remoteFiles_distinct) simp
  then show "distinct (toDelete (snd (Push w opts)))"
    unfolding Push_toDelete [OF assms] by (rule distinct_filter)
qed

lemma excluded_not_in_source:
  assumes "shouldExclude (filepath_Match w) (s3KeyOf w (MountPath opts) e) (ExcludeGlobs opts)"
  shows "s3KeyOf w (MountPath opts) e \<notin> set (push_source w opts)"
  using assms by (auto simp: push_source_def considered_def)

lemma push_deletions_result:
  "fst (push_deletions w opts rf s) = Inr (stats (snd (push_deletions w opts rf s)))"
  by (simp add: push_deletions_def Let_def)

lemma push_deletions_toTransfer:
  "toTransfer (snd (push_deletions w opts rf s)) = toTransfer s"
  by (simp add: push_deletions_def Let_def)

lemma Push_toTransfer:
  assumes list: "client_ListObjects w (Prefix opts) = Inr T"
    and stat: "os_Stat w [] (push_prefixPath w opts) \<noteq> Inl ErrOther"
    and visits: "\<forall>e \<in> set (push_visits w opts). visitOK w (MountPath opts) e"
  shows "toTransfer (snd (Push w opts)) =
     map (\<lambda>e. (s3KeyOf w (MountPath opts) e, snd (decision w opts (push_remoteFiles T []) e)))
       (filter (\<lambda>e. considered w opts e \<and> fst (decision w opts (push_remoteFiles T []) e))
          (push_visits w opts))"
  using push_Walk_toTransfer [OF visits, of "push_remoteFiles T []" push_init]
  by (simp add: Push_completes [OF list stat visits] push_deletions_toTransfer push_init_def)

lemma Push_no_Delete_toDelete:
  "\<not> Delete opts \<Longrightarrow> toDelete (snd (Push w opts)) = []"
  by (rule Push_invariant [where P = "\<lambda>s. toDelete s = []"])
     (simp_all add: push_walkFn_toDelete push_init_def)

lemma pull_downloadLoop_removePaths [simp]:
  "removePaths (calls (pull_downloadLoop w opts objects s)) = removePaths (calls s)"
  by (induction objects arbitrary: s) (simp_all add: Let_def split: prod.splits option.splits)

lemma pull_walkFn_removePaths:
  "\<not> pull_DryRun opts \<Longrightarrow> visitOK w (pull_MountPath opts) e \<Longrightarrow>
   removePaths (calls (snd (pull_walkFn w opts rk e s))) =
     removePaths (calls s) @ (if \<not> fiIsDir (wInfo e) \<and> \<not> rk (s3KeyOf w (pull_MountPath opts) e)
                              then [wPath e] else [])"
  by (auto simp: pull_walkFn_def visitOK_def s3KeyOf_def Let_def split: option.splits sum.splits)

lemma pull_Walk_removePaths:
  "\<not> pull_DryRun opts \<Longrightarrow> \<forall>e \<in> set es. visitOK w (pull_MountPath opts) e \<Longrightarrow>
   removePaths (calls (snd (Walk es (pull_walkFn w opts rk) s))) =
     removePaths (calls s) @ map wPath
       (filter (\<lambda>e. \<not> fiIsDir (wInfo e) \<and> \<not> rk (s3KeyOf w (pull_MountPath opts) e)) es)"
proof (induction es arbitrary: s)
  case Nil
  then show ?case by simp
next
  case (Cons e es)
  obtain r s' where step: "pull_walkFn w opts rk e s = (r, s')" by (cases "pull_walkFn w opts rk e s")
  have ok: "visitOK w (pull_MountPath opts) e" using Cons.prems by simp
  have r: "r = None" using pull_walkFn_error_iff [of w opts rk e s] ok step by simp
  have "removePaths (calls s') = removePaths (calls s) @
          (if \<not> fiIsDir (wInfo e) \<and> \<not> rk (s3KeyOf w (pull_MountPath opts) e) then [wPath e] else [])"
    using pull_walkFn_removePaths [OF Cons.prems(1) ok, of rk s] step by simp
  then show ?case using Cons.IH [of s'] Cons.prems step r by simp
qed

lemma pull_live_inv_start: "\<not> pull_DryRun opts \<Longrightarrow> pull_live_inv (pull_start opts)"
  by (simp add: pull_live_inv_def pull_start_def pull_init_def failedCalls_def)

lemma Pull_live:
  assumes live: "\<not> pull_DryRun opts"
    and list: "client_ListObjects w (pull_Prefix opts) = Inr objects"
    and mkdir: "os_MkdirAll w [] (pull_MountPath opts) = None"
  shows "Pull w opts = pull_deletions w opts objects (pull_downloadLoop w opts objects (pull_start opts))"
  using Pull_completes [OF assms] live by (simp add: pull_start_def)

lemma pull_deletions_removePaths:
  assumes live: "\<not> pull_DryRun opts"
    and visits: "pull_Delete opts \<longrightarrow>
       (\<forall>e \<in> set (filepath_Walk w (calls s) (pull_prefixPath w opts)). visitOK w (pull_MountPath opts) e)"
  shows "removePaths (calls (snd (pull_deletions w opts objects s))) =
     removePaths (calls s) @
       (if pull_Delete opts then
          map wPath (filter (\<lambda>e. \<not> fiIsDir (wInfo e)
                                 \<and> s3KeyOf w (pull_MountPath opts) e \<notin> set (nonDirKeys objects))
            (filepath_Walk w (calls s) (pull_prefixPath w opts)))
        else [])"
proof (cases "pull_Delete opts")
  case False
  then show ?thesis by (simp add: pull_deletions_def)
next
  case True
  let ?es = "filepath_Walk w (calls s) (pull_prefixPath w opts)"
  let ?rk = "pull_remoteKeys objects (\<lambda>key. False)"
  have ok: "\<forall>e \<in> set ?es. visitOK w (pull_MountPath opts) e" using visits True by simp
  have "snd (pull_deletions w opts objects s) = snd (Walk ?es (pull_walkFn w opts ?rk) s)"
    using True by (auto simp: pull_deletions_def pull_prefixPath_def Let_def split: prod.splits option.splits)
  then show ?thesis
    using pull_Walk_removePaths [OF live ok, of ?rk s] True
    by (simp add: pull_remoteKeys_iff)
qed

section \<open>The files a push observes\<close>

lemma Walk_takeWhile:
  assumes "\<And>e s. (fst (fn e s) = None) = ok e"
    and "\<And>e s. \<not> ok e \<Longrightarrow> snd (fn e s) = s"
  shows "snd (Walk es fn s) = snd (Walk (takeWhile ok es) fn s)"
proof (induction es arbitrary: s)
  case Nil
  then show ?case by simp
next
  case (Cons e es)
  obtain r s' where step: "fn e s = (r, s')" by (cases "fn e s")
  show ?case
  proof (cases "ok e")
    case True
    then have "r = None" using assms(1) [of e s] step by simp
    then show ?thesis using Cons.IH [of s'] step True by simp
  next
    case False
    then have "r \<noteq> None" and "s' = s"
      using assms(1) [of e s] assms(2) [of e s] step by simp_all
    then show ?thesis using step False by (cases r) simp_all
  qed
qed

lemma push_walkFn_error_state:
  "\<not> visitOK w (MountPath opts) e \<Longrightarrow> snd (push_walkFn w opts rf e s) = s"
  by (auto simp: push_walkFn_def visitOK_def Let_def split: option.splits sum.splits prod.splits)

lemma push_Walk_visited:
  "snd (Walk (push_visits w opts) (push_walkFn w opts rf) s)
     = snd (Walk (push_visited w opts) (push_walkFn w opts rf) s)"
  unfolding push_visited_def
  by (rule Walk_takeWhile) (simp_all add: push_walkFn_error_iff push_walkFn_error_state)

lemma push_visited_ok: "\<forall>e \<in> set (push_visited w opts). visitOK w (MountPath opts) e"
  by (auto simp: push_visited_def dest: set_takeWhileD)

lemma push_deletions_localFiles:
  "localFiles (snd (push_deletions w opts rf s)) = localFiles s"
  by (simp add: push_deletions_def Let_def)

lemma Push_localFiles_walk:
  assumes list: "client_ListObjects w (Prefix opts) = Inr T"
  shows "localFiles (snd (Push w opts)) =
     localFiles (snd (Walk (push_visits w opts) (push_walkFn w opts (push_remoteFiles T [])) push_init))"
proof (cases "os_Stat w [] (push_prefixPath w opts)")
  case (Inl err)
  then have "push_visits w opts = []" by (simp add: push_visits_def)
  then show ?thesis
    using Inl list
    by (cases err)
       (simp_all add: Push_def push_prefixPath_def Let_def push_deletions_localFiles)
next
  case (Inr info)
  obtain r s where run: "Walk (push_visits w opts) (push_walkFn w opts (push_remoteFiles T [])) push_init = (r, s)"
    by (cases "Walk (push_visits w opts) (push_walkFn w opts (push_remoteFiles T [])) push_init")
  then show ?thesis
    using Inr list
    by (cases r)
       (simp_all add: Push_def push_visits_def push_prefixPath_def Let_def push_deletions_localFiles)
qed

lemma Push_localFiles:
  assumes list: "client_ListObjects w (Prefix opts) = Inr T"
  shows "localFiles (snd (Push w opts)) key = (key \<in> set (push_observed w opts))"
  using push_Walk_localFiles [OF push_visited_ok, of w opts "push_remoteFiles T []" push_init key]
  by (auto simp: Push_localFiles_walk [OF list] push_Walk_visited push_observed_def push_init_def)

lemma push_visited_complete:
  "fst (Push w opts) = Inr st \<Longrightarrow> push_visited w opts = push_visits w opts"
  using Push_Inr_D [of w opts st] by (simp add: push_visited_def)

lemma Push_sweep_spares_observed:
  "(\<forall>key \<in> set (uploadKeys (calls (snd (Push w opts)))). localFiles (snd (Push w opts)) key)
   \<and> (\<forall>key \<in> set (toDelete (snd (Push w opts))). \<not> localFiles (snd (Push w opts)) key)"
proof -
  let ?P = "\<lambda>s::push_state. (\<forall>key \<in> set (uploadKeys (calls s)). localFiles s key) \<and> toDelete s = []"
  let ?Q = "\<lambda>s::push_state. (\<forall>key \<in> set (uploadKeys (calls s)). localFiles s key)
               \<and> (\<forall>key \<in> set (toDelete s). \<not> localFiles s key)"
  show "?Q (snd (Push w opts))"
  proof (rule Push_invariant [where P = ?P and Q = ?Q])
    show "?P push_init" by (simp add: push_init_def)
  next
    fix rf e s assume "?P s"
    then show "?P (snd (push_walkFn w opts rf e s))"
      using push_walkFn_uploads_seen [of s w opts rf e] by (simp add: push_walkFn_toDelete)
  next
    fix s assume "?P s"
    then show "?Q s" by simp
  next
    fix keys s assume "?P s"
    then show "?Q (push_deleteLoop w opts keys s)"
      by (simp add: push_deleteLoop_toDelete)
  qed
qed

section \<open>The example, evaluated\<close>

lemmas ex_defs = exWorld_def exAbsent_def exPush_def exPull_def exObjects_def exVisits_def
  exPlain_def exDryPush_def exDryPull_def
  Push_def push_walkFn_def push_deletions_def push_init_def
  Pull_def pull_walkFn_def pull_deletions_def pull_init_def pull_start_def pull_visits_def
  needsUpload_def needsDownload_def index_remote_def zeroS3Object_def
  HasSuffix_def HasPrefix_def TrimSuffix_def After_def Add_def Second_def Millisecond_def Let_def
  s3KeyOf_def visitOK_def considered_def decision_def nonDirKeys_def
  push_prefixPath_def push_visits_def push_source_def pull_prefixPath_def failedCalls_def

lemma ex_list:
  "client_ListObjects exWorld prefix = Inr exObjects"
  "client_ListObjects exAbsent prefix = Inr exObjects"
  by (simp_all add: exWorld_def exAbsent_def)

lemma ex_stat:
  "os_Stat exWorld [] (push_prefixPath exWorld exPush) \<noteq> Inl ErrOther"
  "os_Stat exWorld [] (push_prefixPath exWorld exPlain) \<noteq> Inl ErrOther"
  "os_Stat exAbsent [] (push_prefixPath exAbsent opts) = Inl ErrNotExist"
  by (simp_all add: exWorld_def exAbsent_def exPush_def exPlain_def push_prefixPath_def)

lemma ex_push_visits:
  "push_visits exWorld exPush = exVisits"
  "push_visits exWorld exPlain = exVisits"
  by (simp_all add: exWorld_def exPush_def exPlain_def push_prefixPath_def push_visits_def)

lemma ex_visitOK: "\<forall>e \<in> set exVisits. visitOK exWorld ''/mnt'' e"
  by (simp add: exWorld_def exVisits_def visitOK_def HasPrefix_def)

lemma ex_keys:
  "map (s3KeyOf exWorld ''/mnt'') (filter (\<lambda>e. \<not> fiIsDir (wInfo e)) exVisits)
     = [''data/a.txt'', ''data/b.txt'', ''data/c.log'', ''data/d.txt'']"
  by (simp add: exWorld_def exVisits_def s3KeyOf_def HasPrefix_def)

lemma ex_opts:
  "MountPath exPush = ''/mnt''" "MountPath exPlain = ''/mnt''"
  "\<not> DryRun exPush" "Delete exPush" "ExcludeGlobs exPlain = []" "\<not> Delete exPlain"
  "Delete (exPush\<lparr>Delete := True\<rparr>)" "\<not> Delete (exPush\<lparr>Delete := False\<rparr>)"
  "DryRun exDryPush" "pull_DryRun exDryPull" "\<not> pull_DryRun exPull" "pull_MountPath exPull = ''/mnt''"
  "pull_Delete exPull"
  by (simp_all add: exPush_def exPlain_def exDryPush_def exDryPull_def exPull_def)

lemma ex_plain:
  "toTransfer (snd (Push exWorld exPlain))
     = [(''data/a.txt'', ''local is newer''), (''data/b.txt'', ''new file'')]"
  "toSkip (snd (Push exWorld exPlain)) = [''data/c.log'', ''data/d.txt'']"
  by (simp_all add: ex_defs)

lemma ex_push:
  "fst (Push exWorld exPush) = Inr \<lparr>Uploaded = 1, Skipped = 1, Deleted = 1, Failed = 2\<rparr>"
  "toDelete (snd (Push exWorld exPush)) = [''data/c.log'', ''data/old.txt'']"
  "calls (snd (Push exWorld exPush)) =
       [UploadFile ''/mnt/data/a.txt'' ''data/a.txt'' (Some ''timeout''),
        UploadFile ''/mnt/data/b.txt'' ''data/b.txt'' None,
        DeleteObject ''data/c.log'' None,
        DeleteObject ''data/old.txt'' (Some ''denied'')]"
  by (simp_all add: ex_defs)

lemma ex_pull:
  "fst (Pull exWorld exPull)
       = Inr \<lparr>Downloaded = 2, pull_Skipped = 1, pull_Deleted = 0, pull_Failed = 2\<rparr>"
  "calls (snd (Pull exWorld exPull)) =
       [MkdirAll ''/mnt'' None,
        DownloadFile ''data/a.txt'' ''/mnt/data/a.txt'' (Some ''timeout''),
        DownloadFile ''data/c.log'' ''/mnt/data/c.log'' None,
        DownloadFile ''data/old.txt'' ''/mnt/data/old.txt'' None,
        Remove ''/mnt/data/b.txt'' (Some ''busy'')]"
  by (simp_all add: ex_defs)

lemma ex_pull_visits: "pull_visits exWorld exPull exObjects = exVisits"
  by (simp add: exWorld_def pull_visits_def)

lemma ex_dry:
  "fst (Push exWorld exDryPush) = Inr \<lparr>Uploaded = 0, Skipped = 0, Deleted = 0, Failed = 0\<rparr>"
  "toTransfer (snd (Push exWorld exDryPush))
       = [(''data/a.txt'', ''local is newer''), (''data/b.txt'', ''new file'')]"
  "toSkip (snd (Push exWorld exDryPush)) = [''data/d.txt'']"
  "toDelete (snd (Push exWorld exDryPush)) = [''data/c.log'', ''data/old.txt'']"
  "fst (Pull exWorld exDryPull)
     = Inr \<lparr>Downloaded = 0, pull_Skipped = 0, pull_Deleted = 0, pull_Failed = 0\<rparr>"
  "toTransfer (snd (Pull exWorld exDryPull))
     = [(''data/a.txt'', ''size differs''), (''data/c.log'', ''new file''), (''data/old.txt'', ''new file'')]"
  "toSkip (snd (Pull exWorld exDryPull)) = [''data/d.txt'']"
  "toDelete (snd (Pull exWorld exDryPull)) = [''data/b.txt'']"
  by (simp_all add: ex_defs)

lemma ex_absent:
  "fst (Push exAbsent exPush) = Inr \<lparr>Uploaded = 0, Skipped = 0, Deleted = 3, Failed = 1\<rparr>"
  "toDelete (snd (Push exAbsent exPush))
       = [''data/a.txt'', ''data/c.log'', ''data/d.txt'', ''data/old.txt'']"
  by (simp_all add: ex_defs)

lemma ex_push_visited: "push_visited exWorld exPush = exVisits"
  using ex_visitOK by (simp add: push_visited_def ex_push_visits ex_opts takeWhile_eq_all_conv)

lemma ex_push_observed:
  "push_observed exWorld exPush = [''data/a.txt'', ''data/b.txt'', ''data/d.txt'']"
  unfolding push_observed_def ex_push_visited
  by (simp add: considered_def s3KeyOf_def
      exWorld_def exPush_def exVisits_def HasPrefix_def HasSuffix_def TrimSuffix_def)

section \<open>Properties of a push\<close>

text \<open>
  Claim C1.  Take a push without exclusion rules and without deletions, whose remote
  listing \<open>T\<close> and local walk succeed, the walk visiting every path once (the two
  snapshots).  Then every non-directory path of the walk is assigned to exactly one of
  the transfers and the skips: the two sets are disjoint, no key occurs twice, and their
  union is the set of the keys of the non-directory visits.  Every such path without a
  counterpart in \<open>T\<close> is among the transfers with the reason "new file".  Nothing is
  selected for deletion.
\<close>

theorem C1_push_partition:
  assumes list: "client_ListObjects w (Prefix opts) = Inr T"
    and stat: "os_Stat w [] (push_prefixPath w opts) \<noteq> Inl ErrOther"
    and visits: "\<forall>e \<in> set (push_visits w opts). visitOK w (MountPath opts) e"
    and keys: "distinct (map (s3KeyOf w (MountPath opts))
                 (filter (\<lambda>e. \<not> fiIsDir (wInfo e)) (push_visits w opts)))"
    and globs: "ExcludeGlobs opts = []"
    and nodel: "\<not> Delete opts"
  shows "set (map fst (toTransfer (snd (Push w opts)))) \<inter> set (toSkip (snd (Push w opts))) = {}
       \<and> set (map fst (toTransfer (snd (Push w opts)))) \<union> set (toSkip (snd (Push w opts)))
           = set (map (s3KeyOf w (MountPath opts))
                 (filter (\<lambda>e. \<not> fiIsDir (wInfo e)) (push_visits w opts)))
       \<and> distinct (map fst (toTransfer (snd (Push w opts))) @ toSkip (snd (Push w opts)))
       \<and> (\<forall>e \<in> set (push_visits w opts).
            \<not> fiIsDir (wInfo e) \<and> s3KeyOf w (MountPath opts) e \<notin> set (nonDirKeys T)
            \<longrightarrow> (s3KeyOf w (MountPath opts) e, ''new file'') \<in> set (toTransfer (snd (Push w opts))))
       \<and> toDelete (snd (Push w opts)) = []"
proof -
  let ?rf = "push_remoteFiles T []"
  let ?V = "push_visits w opts"
  let ?key = "s3KeyOf w (MountPath opts)"
  let ?F = "filter (\<lambda>e. \<not> fiIsDir (wInfo e)) ?V"
  let ?needs = "\<lambda>e. fst (decision w opts ?rf e)"
  let ?p = "snd (Push w opts)"
  have p: "?p = snd (Walk ?V (push_walkFn w opts ?rf) push_init)"
    using Push_completes [OF list stat visits] nodel by (simp add: push_deletions_no_Delete)
  have cons: "considered w opts e = (\<not> fiIsDir (wInfo e))" for e
    by (simp add: considered_def globs)
  have tr: "toTransfer ?p = map (\<lambda>e. (?key e, snd (decision w opts ?rf e)))
               (filter (\<lambda>e. \<not> fiIsDir (wInfo e) \<and> ?needs e) ?V)"
    using push_Walk_toTransfer [OF visits, of ?rf push_init]
    by (simp add: p cons push_init_def)
  have sk: "toSkip ?p = map ?key (filter (\<lambda>e. \<not> fiIsDir (wInfo e) \<and> \<not> ?needs e) ?V)"
    using push_Walk_toSkip [OF visits, of ?rf push_init]
    by (simp add: p cons push_init_def)
  have trk: "map fst (toTransfer ?p) = map ?key (filter (\<lambda>e. \<not> fiIsDir (wInfo e) \<and> ?needs e) ?V)"
    by (simp add: tr comp_def)
  have dist: "distinct (map fst (toTransfer ?p) @ toSkip ?p)"
    unfolding trk sk using distinct_map_filter_split [OF keys, of ?needs] by simp
  have disj: "set (map fst (toTransfer ?p)) \<inter> set (toSkip ?p) = {}"
    using dist by simp
  have union: "set (map fst (toTransfer ?p)) \<union> set (toSkip ?p) = set (map ?key ?F)"
    unfolding trk sk using set_map_filter_split [of ?key ?needs ?F] by simp
  have new: "(?key e, ''new file'') \<in> set (toTransfer ?p)"
    if "e \<in> set ?V" and "\<not> fiIsDir (wInfo e)" and "?key e \<notin> set (nonDirKeys T)" for e
  proof -
    have d: "decision w opts ?rf e = (True, ''new file'')"
      using that(3) by (rule decision_new_file)
    show ?thesis
      unfolding tr using that(1,2) d by (auto simp: image_iff intro!: bexI [of _ e])
  qed
  have del: "toDelete ?p = []"
    unfolding p by (rule push_Walk_toDelete) (simp add: push_init_def)
  show ?thesis using disj union dist new del by blast
qed

theorem C1_push_partition_witness:
  "toTransfer (snd (Push exWorld exPlain))
     = [(''data/a.txt'', ''local is newer''), (''data/b.txt'', ''new file'')]
   \<and> toSkip (snd (Push exWorld exPlain)) = [''data/c.log'', ''data/d.txt'']
   \<and> set (map fst (toTransfer (snd (Push exWorld exPlain))))
       \<inter> set (toSkip (snd (Push exWorld exPlain))) = {}
   \<and> set (map fst (toTransfer (snd (Push exWorld exPlain))))
       \<union> set (toSkip (snd (Push exWorld exPlain)))
       = {''data/a.txt'', ''data/b.txt'', ''data/c.log'', ''data/d.txt''}
   \<and> toDelete (snd (Push exWorld exPlain)) = []"
proof -
  have keys: "distinct (map (s3KeyOf exWorld (MountPath exPlain))
                 (filter (\<lambda>e. \<not> fiIsDir (wInfo e)) (push_visits exWorld exPlain)))"
    by (simp add: ex_push_visits ex_opts ex_keys)
  have visits: "\<forall>e \<in> set (push_visits exWorld exPlain). visitOK exWorld (MountPath exPlain) e"
    using ex_visitOK by (simp add: ex_push_visits ex_opts)
  show ?thesis
    using C1_push_partition [OF ex_list(1) ex_stat(2) visits keys ex_opts(5) ex_opts(6)]
    by (simp add: ex_plain ex_push_visits ex_opts ex_keys)
qed

text \<open>
  Claim C3.  Take a push with deletions that returns without error, \<open>T\<close> being its remote
  listing.  Then a key of \<open>T\<close> that does not end in \<open>/\<close> is selected for deletion
  exactly when it is not the key of a non-excluded local file the walk has visited, and it
  is selected once; in a live run \<open>client.DeleteObject\<close> is called on exactly the selected
  keys.  In particular a local file whose key matches an exclusion rule counts as absent:
  a remote object with its key is selected for deletion.
\<close>

theorem C3_delete_sweep:
  assumes del: "Delete opts"
    and list: "client_ListObjects w (Prefix opts) = Inr T"
    and ok: "fst (Push w opts) = Inr st"
  shows "set (toDelete (snd (Push w opts))) = set (nonDirKeys T) - set (push_source w opts)
       \<and> distinct (toDelete (snd (Push w opts)))
       \<and> (\<not> DryRun opts \<longrightarrow> deleteKeys (calls (snd (Push w opts))) = toDelete (snd (Push w opts)))
       \<and> (\<forall>e \<in> set (push_visits w opts).
            shouldExclude (filepath_Match w) (s3KeyOf w (MountPath opts) e) (ExcludeGlobs opts)
            \<and> s3KeyOf w (MountPath opts) e \<in> set (nonDirKeys T)
            \<longrightarrow> s3KeyOf w (MountPath opts) e \<in> set (toDelete (snd (Push w opts))))"
proof -
  have stat: "os_Stat w [] (push_prefixPath w opts) \<noteq> Inl ErrOther"
    and visits: "\<forall>e \<in> set (push_visits w opts). visitOK w (MountPath opts) e"
    using Push_Inr_D [OF ok] by simp_all
  note sweep = Push_toDelete_set [OF list stat visits del]
  have live: "\<not> DryRun opts \<longrightarrow> deleteKeys (calls (snd (Push w opts))) = toDelete (snd (Push w opts))"
    using Push_live_inv [of opts w] by (simp add: push_live_inv_def)
  have excl: "s3KeyOf w (MountPath opts) e \<in> set (toDelete (snd (Push w opts)))"
    if "shouldExclude (filepath_Match w) (s3KeyOf w (MountPath opts) e) (ExcludeGlobs opts)"
      and "s3KeyOf w (MountPath opts) e \<in> set (nonDirKeys T)" for e
    using that excluded_not_in_source [of w opts e] by (simp add: sweep(1))
  show ?thesis using sweep live excl by blast
qed

theorem C3_delete_sweep_witness:
  "fst (Push exWorld exPush) = Inr \<lparr>Uploaded = 1, Skipped = 1, Deleted = 1, Failed = 2\<rparr>
   \<and> shouldExclude (filepath_Match exWorld) ''data/c.log'' (ExcludeGlobs exPush)
   \<and> set (toDelete (snd (Push exWorld exPush))) = set (nonDirKeys exObjects) - set (push_source exWorld exPush)
   \<and> set (toDelete (snd (Push exWorld exPush))) = {''data/c.log'', ''data/old.txt''}
   \<and> deleteKeys (calls (snd (Push exWorld exPush))) = toDelete (snd (Push exWorld exPush))"
proof -
  have "shouldExclude (filepath_Match exWorld) ''data/c.log'' (ExcludeGlobs exPush)"
    by (simp add: exWorld_def exPush_def)
  then show ?thesis
    using C3_delete_sweep [OF ex_opts(4) ex_list(1) ex_push(1)]
    by (simp add: ex_push ex_opts)
qed

text \<open>
  Claim C8.  Take a push whose remote listing \<open>T\<close> succeeds and whose local root does not
  exist.  Without deletions the run returns the statistics with all counters zero, makes
  no call and selects nothing.  With deletions the run returns its statistics, selects
  every key of \<open>T\<close> that does not end in \<open>/\<close> for deletion (once each, and calls
  \<open>client.DeleteObject\<close> on each when it is live), and attempts no upload.
\<close>

theorem C8_absent_local_root:
  assumes list: "client_ListObjects w (Prefix opts) = Inr T"
    and absent: "os_Stat w [] (push_prefixPath w opts) = Inl ErrNotExist"
  shows "(\<not> Delete opts \<longrightarrow>
            fst (Push w opts) = Inr \<lparr>Uploaded = 0, Skipped = 0, Deleted = 0, Failed = 0\<rparr>
            \<and> calls (snd (Push w opts)) = []
            \<and> toTransfer (snd (Push w opts)) = []
            \<and> toDelete (snd (Push w opts)) = [])
       \<and> (Delete opts \<longrightarrow>
            fst (Push w opts) = Inr (stats (snd (Push w opts)))
            \<and> set (toDelete (snd (Push w opts))) = set (nonDirKeys T)
            \<and> distinct (toDelete (snd (Push w opts)))
            \<and> (\<not> DryRun opts \<longrightarrow>
                 deleteKeys (calls (snd (Push w opts))) = toDelete (snd (Push w opts)))
            \<and> toTransfer (snd (Push w opts)) = []
            \<and> uploadKeys (calls (snd (Push w opts))) = []
            \<and> Uploaded (stats (snd (Push w opts))) = 0)"
proof -
  let ?rf = "push_remoteFiles T []"
  have stat: "os_Stat w [] (push_prefixPath w opts) \<noteq> Inl ErrOther"
    using absent by simp
  have novisit: "push_visits w opts = []"
    using absent by (simp add: push_visits_def)
  have visits: "\<forall>e \<in> set (push_visits w opts). visitOK w (MountPath opts) e"
    using novisit by simp
  have run: "Push w opts = push_deletions w opts ?rf push_init"
    using Push_completes [OF list stat visits] novisit by simp
  have nosource: "push_source w opts = []"
    using novisit by (simp add: push_source_def)
  have quiet: "fst (Push w opts) = Inr \<lparr>Uploaded = 0, Skipped = 0, Deleted = 0, Failed = 0\<rparr>
            \<and> calls (snd (Push w opts)) = []
            \<and> toTransfer (snd (Push w opts)) = []
            \<and> toDelete (snd (Push w opts)) = []" if "\<not> Delete opts"
    using that run by (simp add: push_deletions_no_Delete push_init_def)
  have sweep: "fst (Push w opts) = Inr (stats (snd (Push w opts)))
            \<and> set (toDelete (snd (Push w opts))) = set (nonDirKeys T)
            \<and> distinct (toDelete (snd (Push w opts)))
            \<and> (\<not> DryRun opts \<longrightarrow>
                 deleteKeys (calls (snd (Push w opts))) = toDelete (snd (Push w opts)))
            \<and> toTransfer (snd (Push w opts)) = []
            \<and> uploadKeys (calls (snd (Push w opts))) = []
            \<and> Uploaded (stats (snd (Push w opts))) = 0" if del: "Delete opts"
  proof -
    have p: "Push w opts = (Inr (stats (push_deleteLoop w opts (map fst ?rf) push_init)),
                           push_deleteLoop w opts (map fst ?rf) push_init)"
      using run del by (simp add: push_deletions_Delete)
    have live: "\<not> DryRun opts \<longrightarrow> deleteKeys (calls (snd (Push w opts))) = toDelete (snd (Push w opts))"
      using Push_live_inv [of opts w] by (simp add: push_live_inv_def)
    show ?thesis
      using Push_toDelete_set [OF list stat visits del] live
      by (simp add: p nosource push_init_def)
  qed
  show ?thesis using quiet sweep by blast
qed

theorem C8_absent_local_root_witness:
  "fst (Push exAbsent (exPush\<lparr>Delete := False\<rparr>))
     = Inr \<lparr>Uploaded = 0, Skipped = 0, Deleted = 0, Failed = 0\<rparr>
   \<and> calls (snd (Push exAbsent (exPush\<lparr>Delete := False\<rparr>))) = []
   \<and> fst (Push exAbsent exPush) = Inr \<lparr>Uploaded = 0, Skipped = 0, Deleted = 3, Failed = 1\<rparr>
   \<and> toDelete (snd (Push exAbsent exPush))
       = [''data/a.txt'', ''data/c.log'', ''data/d.txt'', ''data/old.txt'']
   \<and> set (toDelete (snd (Push exAbsent exPush))) = set (nonDirKeys exObjects)
   \<and> uploadKeys (calls (snd (Push exAbsent exPush))) = []"
  using C8_absent_local_root [OF ex_list(2) ex_stat(3), of "exPush\<lparr>Delete := False\<rparr>"]
    C8_absent_local_root [OF ex_list(2) ex_stat(3), of exPush]
  by (simp add: ex_absent ex_opts)

text \<open>
  Claim C9.  In every push, every non-excluded local file the walk reaches is recorded in
  \<open>localFiles\<close>, whether or not it needs an upload and whatever the upload answers, and
  nothing else is recorded; in a run that returns without error these are all the
  non-excluded files of the walk.  The key of every upload that was attempted (whether it
  failed or not) is recorded.  A recorded key is never selected for deletion: a transfer
  that fails never makes the run delete the remote object of the same key.
\<close>

theorem C9_failed_upload_never_deleted:
  "(\<forall>localPath key err. UploadFile localPath key err \<in> set (calls (snd (Push w opts)))
      \<longrightarrow> localFiles (snd (Push w opts)) key \<and> key \<notin> set (toDelete (snd (Push w opts))))
   \<and> (client_ListObjects w (Prefix opts) = Inr T \<longrightarrow>
        (\<forall>e \<in> set (push_visited w opts). considered w opts e \<longrightarrow>
           localFiles (snd (Push w opts)) (s3KeyOf w (MountPath opts) e)
           \<and> s3KeyOf w (MountPath opts) e \<notin> set (toDelete (snd (Push w opts)))))
   \<and> (fst (Push w opts) = Inr st \<longrightarrow>
        (\<forall>e \<in> set (push_visits w opts). considered w opts e \<longrightarrow>
           localFiles (snd (Push w opts)) (s3KeyOf w (MountPath opts) e)
           \<and> s3KeyOf w (MountPath opts) e \<notin> set (toDelete (snd (Push w opts)))))
   \<and> (client_ListObjects w (Prefix opts) = Inr T \<longrightarrow>
        (\<forall>key. localFiles (snd (Push w opts)) key \<longleftrightarrow> key \<in> set (push_observed w opts)))"
proof -
  let ?p = "snd (Push w opts)"
  let ?key = "s3KeyOf w (MountPath opts)"
  note inv = Push_sweep_spares_observed [of w opts]
  have uploads: "localFiles ?p key \<and> key \<notin> set (toDelete ?p)"
    if "UploadFile localPath key err \<in> set (calls ?p)" for localPath key err
    using inv uploadKeys_member [OF that] by blast
  have visited: "localFiles ?p (?key e) \<and> ?key e \<notin> set (toDelete ?p)"
    if list: "client_ListObjects w (Prefix opts) = Inr T"
      and e: "e \<in> set (push_visited w opts)" "considered w opts e" for e
  proof -
    have "?key e \<in> set (push_observed w opts)"
      using e by (simp add: push_observed_def)
    then have "localFiles ?p (?key e)" by (simp add: Push_localFiles [OF list])
    then show ?thesis using inv by blast
  qed
  have complete: "localFiles ?p (?key e) \<and> ?key e \<notin> set (toDelete ?p)"
    if ok: "fst (Push w opts) = Inr st"
      and e: "e \<in> set (push_visits w opts)" "considered w opts e" for e
  proof -
    obtain T' where list: "client_ListObjects w (Prefix opts) = Inr T'"
      using Push_Inr_D [OF ok] by blast
    have "?key e \<in> set (push_observed w opts)"
      using e by (simp add: push_observed_def push_visited_complete [OF ok])
    then have "localFiles ?p (?key e)" by (simp add: Push_localFiles [OF list])
    then show ?thesis using inv by blast
  qed
  have exact: "localFiles ?p key \<longleftrightarrow> key \<in> set (push_observed w opts)"
    if "client_ListObjects w (Prefix opts) = Inr T" for key
    using that by (rule Push_localFiles)
  show ?thesis using uploads visited complete exact by blast
qed

theorem C9_failed_upload_never_deleted_witness:
  "UploadFile ''/mnt/data/a.txt'' ''data/a.txt'' (Some ''timeout'') \<in> set (calls (snd (Push exWorld exPush)))
   \<and> set (nonDirKeys exObjects) = {''data/a.txt'', ''data/c.log'', ''data/d.txt'', ''data/old.txt''}
   \<and> toSkip (snd (Push exWorld exPush)) = [''data/d.txt'']
   \<and> localFiles (snd (Push exWorld exPush)) ''data/a.txt''
   \<and> localFiles (snd (Push exWorld exPush)) ''data/b.txt''
   \<and> localFiles (snd (Push exWorld exPush)) ''data/d.txt''
   \<and> \<not> localFiles (snd (Push exWorld exPush)) ''data/c.log''
   \<and> ''data/a.txt'' \<notin> set (toDelete (snd (Push exWorld exPush)))
   \<and> ''data/d.txt'' \<notin> set (toDelete (snd (Push exWorld exPush)))"
proof -
  have up: "UploadFile ''/mnt/data/a.txt'' ''data/a.txt'' (Some ''timeout'')
          \<in> set (calls (snd (Push exWorld exPush)))"
    by (simp add: ex_push)
  have keys: "set (nonDirKeys exObjects) = {''data/a.txt'', ''data/c.log'', ''data/d.txt'', ''data/old.txt''}"
    by (simp add: nonDirKeys_def exObjects_def HasSuffix_def)
  have skip: "toSkip (snd (Push exWorld exPush)) = [''data/d.txt'']"
    by (simp add: ex_defs)
  have d: "\<lparr>wPath = ''/mnt/data/d.txt'',
            wInfo = \<lparr>fiSize = 4, fiModTime = 0, fiIsDir = False\<rparr>, wErr = None\<rparr>
             \<in> set (push_visited exWorld exPush)"
    and dc: "considered exWorld exPush \<lparr>wPath = ''/mnt/data/d.txt'',
            wInfo = \<lparr>fiSize = 4, fiModTime = 0, fiIsDir = False\<rparr>, wErr = None\<rparr>"
    and dk: "s3KeyOf exWorld (MountPath exPush) \<lparr>wPath = ''/mnt/data/d.txt'',
            wInfo = \<lparr>fiSize = 4, fiModTime = 0, fiIsDir = False\<rparr>, wErr = None\<rparr> = ''data/d.txt''"
    unfolding ex_push_visited
    by (simp_all add: considered_def s3KeyOf_def
        exWorld_def exPush_def exVisits_def HasPrefix_def HasSuffix_def TrimSuffix_def)
  note c9 = C9_failed_upload_never_deleted [of exWorld exPush exObjects
        "\<lparr>Uploaded = 1, Skipped = 1, Deleted = 1, Failed = 2\<rparr>"]
  have a: "localFiles (snd (Push exWorld exPush)) ''data/a.txt''
           \<and> ''data/a.txt'' \<notin> set (toDelete (snd (Push exWorld exPush)))"
    using c9 up by blast
  have dd: "localFiles (snd (Push exWorld exPush)) ''data/d.txt''
           \<and> ''data/d.txt'' \<notin> set (toDelete (snd (Push exWorld exPush)))"
    using c9 ex_list(1) [of "Prefix exPush"] d dc dk by metis
  have obs: "localFiles (snd (Push exWorld exPush)) key
               \<longleftrightarrow> key \<in> set [''data/a.txt'', ''data/b.txt'', ''data/d.txt'']" for key
    using c9 ex_list(1) [of "Prefix exPush"] by (simp add: ex_push_observed)
  have b: "localFiles (snd (Push exWorld exPush)) ''data/b.txt''"
    and c: "\<not> localFiles (snd (Push exWorld exPush)) ''data/c.log''"
    by (simp_all add: obs)
  show ?thesis using up keys skip a b c dd by simp
qed

section \<open>Properties of both directions\<close>

text \<open>
  Claim C5.  Take a live push and a live pull whose enumerations succeed: the remote
  listing, the check of the local root and every visit of the walk for the push; the remote
  listing, the creation of the mount path and, with deletions, every visit of the walk for
  the pull.  Then, whatever the transfers and deletions of the single items answer, the run
  returns its statistics and no error; the counter of failures is the number of calls that
  returned an error, and every call is counted once; an upload is attempted for every
  visited file that needs one, a deletion for every stale key, a download for every path
  selected for transfer (every listed key that is not a directory marker is either
  selected for transfer or skipped), and a removal for every stale local file.
\<close>

theorem C5_item_failures_do_not_abort:
  assumes live: "\<not> DryRun opts"
    and list: "client_ListObjects w (Prefix opts) = Inr T"
    and stat: "os_Stat w [] (push_prefixPath w opts) \<noteq> Inl ErrOther"
    and visits: "\<forall>e \<in> set (push_visits w opts). visitOK w (MountPath opts) e"
    and plive: "\<not> pull_DryRun popts"
    and plist: "client_ListObjects w (pull_Prefix popts) = Inr objects"
    and mkdir: "os_MkdirAll w [] (pull_MountPath popts) = None"
    and pvisits: "pull_Delete popts \<longrightarrow>
       (\<forall>e \<in> set (pull_visits w popts objects). visitOK w (pull_MountPath popts) e)"
  shows "fst (Push w opts) = Inr (stats (snd (Push w opts)))
       \<and> Failed (stats (snd (Push w opts))) = length (failedCalls (calls (snd (Push w opts))))
       \<and> Uploaded (stats (snd (Push w opts))) + Deleted (stats (snd (Push w opts)))
           + Failed (stats (snd (Push w opts))) = length (calls (snd (Push w opts)))
       \<and> uploadKeys (calls (snd (Push w opts))) =
           map (s3KeyOf w (MountPath opts))
             (filter (\<lambda>e. considered w opts e \<and> fst (decision w opts (push_remoteFiles T []) e))
                (push_visits w opts))
       \<and> set (deleteKeys (calls (snd (Push w opts)))) =
           (if Delete opts then set (nonDirKeys T) - set (push_source w opts) else {})
       \<and> fst (Pull w popts) = Inr (stats (snd (Pull w popts)))
       \<and> pull_Failed (stats (snd (Pull w popts))) = length (failedCalls (calls (snd (Pull w popts))))
       \<and> Suc (Downloaded (stats (snd (Pull w popts))) + pull_Deleted (stats (snd (Pull w popts)))
           + pull_Failed (stats (snd (Pull w popts)))) = length (calls (snd (Pull w popts)))
       \<and> downloadKeys (calls (snd (Pull w popts))) = map fst (toTransfer (snd (Pull w popts)))
       \<and> set (map fst (toTransfer (snd (Pull w popts)))) \<union> set (toSkip (snd (Pull w popts)))
           = set (nonDirKeys objects)
       \<and> length (toTransfer (snd (Pull w popts))) + length (toSkip (snd (Pull w popts)))
           = length (nonDirKeys objects)
       \<and> removePaths (calls (snd (Pull w popts))) =
           (if pull_Delete popts then
              map wPath (filter (\<lambda>e. \<not> fiIsDir (wInfo e)
                                     \<and> s3KeyOf w (pull_MountPath popts) e \<notin> set (nonDirKeys objects))
                (pull_visits w popts objects))
            else [])"
proof -
  let ?p = "snd (Push w opts)"
  let ?q = "snd (Pull w popts)"
  let ?d = "pull_downloadLoop w popts objects (pull_start popts)"
  have p1: "fst (Push w opts) = Inr (stats ?p)"
    by (simp add: Push_completes [OF list stat visits] push_deletions_result)
  have inv: "push_live_inv ?p" using live by (rule Push_live_inv)
  have p2: "Failed (stats ?p) = length (failedCalls (calls ?p))"
    and p3: "Uploaded (stats ?p) + Deleted (stats ?p) + Failed (stats ?p) = length (calls ?p)"
    and up: "uploadKeys (calls ?p) = map fst (toTransfer ?p)"
    and dl: "deleteKeys (calls ?p) = toDelete ?p"
    using inv by (simp_all add: push_live_inv_def)
  have p4: "uploadKeys (calls ?p) =
           map (s3KeyOf w (MountPath opts))
             (filter (\<lambda>e. considered w opts e \<and> fst (decision w opts (push_remoteFiles T []) e))
                (push_visits w opts))"
    unfolding up Push_toTransfer [OF list stat visits] by (simp add: comp_def)
  have p5: "set (deleteKeys (calls ?p)) =
           (if Delete opts then set (nonDirKeys T) - set (push_source w opts) else {})"
  proof (cases "Delete opts")
    case True
    then show ?thesis using Push_toDelete_set(1) [OF list stat visits True] by (simp add: dl)
  next
    case False
    then show ?thesis by (simp add: dl Push_no_Delete_toDelete)
  qed
  have run: "Pull w popts = pull_deletions w popts objects ?d"
    using plive plist mkdir by (rule Pull_live)
  have pv: "pull_Delete popts \<longrightarrow>
       (\<forall>e \<in> set (filepath_Walk w (calls ?d) (pull_prefixPath w popts)). visitOK w (pull_MountPath popts) e)"
    using pvisits by (simp add: pull_visits_def)
  have q1: "fst (Pull w popts) = Inr (stats ?q)"
    unfolding run using pv by (rule pull_deletions_completes)
  have "pull_live_inv ?d"
    using plive pull_live_inv_start [OF plive] by (rule pull_downloadLoop_live_inv)
  then have qinv: "pull_live_inv ?q"
    unfolding run using plive by (simp add: pull_deletions_live_inv)
  have q2: "pull_Failed (stats ?q) = length (failedCalls (calls ?q))"
    and q3: "Suc (Downloaded (stats ?q) + pull_Deleted (stats ?q) + pull_Failed (stats ?q)) = length (calls ?q)"
    and q4: "downloadKeys (calls ?q) = map fst (toTransfer ?q)"
    using qinv by (simp_all add: pull_live_inv_def)
  have plan: "toTransfer ?q = toTransfer ?d" "toSkip ?q = toSkip ?d"
    unfolding run using pull_deletions_plan [of w popts objects ?d] by simp_all
  have q5: "set (map fst (toTransfer ?q)) \<union> set (toSkip ?q) = set (nonDirKeys objects)"
    unfolding plan using pull_downloadLoop_keys [of w popts objects "pull_start popts"]
    by (simp add: pull_start_def pull_init_def)
  have q6: "length (toTransfer ?q) + length (toSkip ?q) = length (nonDirKeys objects)"
    unfolding plan using pull_downloadLoop_count [of w popts objects "pull_start popts"]
    by (simp add: pull_start_def pull_init_def)
  have q7: "removePaths (calls ?q) =
           (if pull_Delete popts then
              map wPath (filter (\<lambda>e. \<not> fiIsDir (wInfo e)
                                     \<and> s3KeyOf w (pull_MountPath popts) e \<notin> set (nonDirKeys objects))
                (pull_visits w popts objects))
            else [])"
    unfolding run using pull_deletions_removePaths [OF plive pv, of objects] plive
    by (simp add: pull_visits_def pull_start_def pull_init_def)
  show ?thesis
    using p1 p2 p3 p4 p5 q1 q2 q3 q4 q5 q6 q7 by blast
qed

theorem C5_item_failures_do_not_abort_witness:
  "fst (Push exWorld exPush) = Inr \<lparr>Uploaded = 1, Skipped = 1, Deleted = 1, Failed = 2\<rparr>
   \<and> fst (Push exWorld exPush) = Inr (stats (snd (Push exWorld exPush)))
   \<and> Failed (stats (snd (Push exWorld exPush))) = length (failedCalls (calls (snd (Push exWorld exPush))))
   \<and> calls (snd (Push exWorld exPush)) =
       [UploadFile ''/mnt/data/a.txt'' ''data/a.txt'' (Some ''timeout''),
        UploadFile ''/mnt/data/b.txt'' ''data/b.txt'' None,
        DeleteObject ''data/c.log'' None,
        DeleteObject ''data/old.txt'' (Some ''denied'')]
   \<and> fst (Pull exWorld exPull)
       = Inr \<lparr>Downloaded = 2, pull_Skipped = 1, pull_Deleted = 0, pull_Failed = 2\<rparr>
   \<and> fst (Pull exWorld exPull) = Inr (stats (snd (Pull exWorld exPull)))
   \<and> pull_Failed (stats (snd (Pull exWorld exPull))) = length (failedCalls (calls (snd (Pull exWorld exPull))))
   \<and> calls (snd (Pull exWorld exPull)) =
       [MkdirAll ''/mnt'' None,
        DownloadFile ''data/a.txt'' ''/mnt/data/a.txt'' (Some ''timeout''),
        DownloadFile ''data/c.log'' ''/mnt/data/c.log'' None,
        DownloadFile ''data/old.txt'' ''/mnt/data/old.txt'' None,
        Remove ''/mnt/data/b.txt'' (Some ''busy'')]"
proof -
  have visits: "\<forall>e \<in> set (push_visits exWorld exPush). visitOK exWorld (MountPath exPush) e"
    using ex_visitOK by (simp add: ex_push_visits ex_opts)
  have mkdir: "os_MkdirAll exWorld [] (pull_MountPath exPull) = None"
    by (simp add: exWorld_def)
  have pvisits: "pull_Delete exPull \<longrightarrow>
       (\<forall>e \<in> set (pull_visits exWorld exPull exObjects). visitOK exWorld (pull_MountPath exPull) e)"
    using ex_visitOK by (simp add: ex_pull_visits ex_opts)
  show ?thesis
    using C5_item_failures_do_not_abort [OF ex_opts(3) ex_list(1) ex_stat(1) visits
        ex_opts(11) ex_list(1) mkdir pvisits]
    by (simp add: ex_push ex_pull)
qed

text \<open>
  Claim C6.  A dry run invokes no mutating operation (no upload, download, deletion of an
  object, removal of a file or creation of a directory), for push and for pull, and the
  statistics it returns have no transfer and no deletion.
\<close>

theorem C6_dry_run_no_mutation:
  assumes "DryRun opts" and "pull_DryRun popts"
  shows "calls (snd (Push w opts)) = []
       \<and> (\<forall>st. fst (Push w opts) = Inr st \<longrightarrow> Uploaded st = 0 \<and> Deleted st = 0)
       \<and> calls (snd (Pull w popts)) = []
       \<and> (\<forall>st. fst (Pull w popts) = Inr st \<longrightarrow> Downloaded st = 0 \<and> pull_Deleted st = 0)"
  using Push_dry [OF assms(1), of w] Pull_dry [OF assms(2), of w]
  by (auto simp: push_init_def pull_init_def dest!: Push_result_stats Pull_result_stats)

theorem C6_dry_run_no_mutation_witness:
  "calls (snd (Push exWorld exDryPush)) = []
   \<and> toTransfer (snd (Push exWorld exDryPush))
       = [(''data/a.txt'', ''local is newer''), (''data/b.txt'', ''new file'')]
   \<and> toDelete (snd (Push exWorld exDryPush)) = [''data/c.log'', ''data/old.txt'']
   \<and> calls (snd (Pull exWorld exDryPull)) = []
   \<and> toTransfer (snd (Pull exWorld exDryPull))
     = [(''data/a.txt'', ''size differs''), (''data/c.log'', ''new file''), (''data/old.txt'', ''new file'')]
   \<and> toDelete (snd (Pull exWorld exDryPull)) = [''data/b.txt'']"
  using C6_dry_run_no_mutation [OF ex_opts(9) ex_opts(10), of exWorld]
  by (simp add: ex_dry)

text \<open>
  Claim C10.  When a dry run returns without error, for push and for pull, all four
  counters of its statistics are zero: the skipped paths are not counted either.
\<close>

theorem C10_dry_run_statistics_zero:
  assumes "DryRun opts" and "pull_DryRun popts"
  shows "(\<forall>st. fst (Push w opts) = Inr st
            \<longrightarrow> st = \<lparr>Uploaded = 0, Skipped = 0, Deleted = 0, Failed = 0\<rparr>)
       \<and> (\<forall>st. fst (Pull w popts) = Inr st
            \<longrightarrow> st = \<lparr>Downloaded = 0, pull_Skipped = 0, pull_Deleted = 0, pull_Failed = 0\<rparr>)"
  using Push_dry [OF assms(1), of w] Pull_dry [OF assms(2), of w]
  by (auto simp: push_init_def pull_init_def dest!: Push_result_stats Pull_result_stats)

theorem C10_dry_run_statistics_zero_witness:
  "fst (Push exWorld exDryPush) = Inr \<lparr>Uploaded = 0, Skipped = 0, Deleted = 0, Failed = 0\<rparr>
   \<and> toSkip (snd (Push exWorld exDryPush)) = [''data/d.txt'']
   \<and> fst (Pull exWorld exDryPull)
     = Inr \<lparr>Downloaded = 0, pull_Skipped = 0, pull_Deleted = 0, pull_Failed = 0\<rparr>
   \<and> toSkip (snd (Pull exWorld exDryPull)) = [''data/d.txt'']"
  using C10_dry_run_statistics_zero [OF ex_opts(9) ex_opts(10), of exWorld]
  by (simp add: ex_dry)

end
